theory Spec2Isabelle
  imports Main "HOL-Library.Word" "HOL-Library.AList"
begin

section \<open>The cache engine of \<^verbatim>\<open>cache/mycache.go\<close>\<close>

text \<open>
  A shallow embedding of the expiring key/value cache. The conventions of the model:
  \<^item> Go's \<^verbatim>\<open>int64\<close> (timestamps of \<^verbatim>\<open>UnixNano\<close>, values of \<^verbatim>\<open>time.Duration\<close>) is
    \<open>64 word\<close>; the comparisons of the source on them are the signed ones, \<open><s\<close>.
  \<^item> \<^verbatim>\<open>int\<close>, \<^verbatim>\<open>uint\<close> and \<^verbatim>\<open>uintptr\<close> are 64 bits wide (a 64-bit platform).
  \<^item> Every call observes one clock reading \<open>now\<close>, the value of
    \<^verbatim>\<open>time.Now().UnixNano()\<close>, passed as an argument; \<^verbatim>\<open>time.Now().Add(d).UnixNano()\<close> is
    \<open>now + d\<close> in 64-bit arithmetic. A reading is a number of nanoseconds since the Unix
    epoch; a statement that needs the reading not to lie before the epoch says so
    (\<open>0 \<le>s now\<close>).
  \<^item> A Go map is a reference: the maps live in a store \<open>heap\<close>, from addresses to
    association lists with distinct keys, and the field \<open>items\<close> holds an address. The
    order of a list stands for the unspecified order in which \<^verbatim>\<open>range\<close> visits a map.
  \<^item> A call runs alone (no other goroutine): acquiring a mutex that is held never
    returns, which the model reports as the fault \<open>Blocked\<close>; releasing a mutex that is
    not held is the fatal error of Go's runtime.
  \<^item> The field \<open>trace\<close> is not a field of the Go struct: it records, in order, every
    mutex operation and every invocation of the eviction callback.
  \<^item> Every address of the store holds a map; the nil map, an assignment to which
    panics, is not modelled.
\<close>

subsection \<open>Values and entries\<close>

type_synonym int64 = "64 word"
type_synonym addr = nat
type_synonym callback = nat

text \<open>
  The dynamic type of an \<^verbatim>\<open>interface{}\<close> value, as far as the type switches of
  \<^verbatim>\<open>Increment\<close> and \<^verbatim>\<open>Decrement\<close> tell kinds apart. Floating-point values are carried as
  their IEEE bit patterns; \<open>VStr\<close> and \<open>VOpaque\<close> are values of types outside the switch.
\<close>

datatype object =
    VNil
  | VInt "64 word" | VInt8 "8 word" | VInt16 "16 word" | VInt32 "32 word" | VInt64 "64 word"
  | VUint "64 word" | VUintptr "64 word"
  | VUint8 "8 word" | VUint16 "16 word" | VUint32 "32 word" | VUint64 "64 word"
  | VFloat32 "32 word" | VFloat64 "64 word"
  | VStr string
  | VOpaque nat

record Item =
  Object :: object
  Expiration :: int64

definition Expired :: "Item \<Rightarrow> int64 \<Rightarrow> bool" where
  "Expired item now =
     (if Expiration item = 0 then False else Expiration item <s now)"

definition NoExpiration :: int64 where
  "NoExpiration = - 1"

definition DefaultExpiration :: int64 where
  "DefaultExpiration = 0"

subsection \<open>The cache, the store of maps and the mutex\<close>

record RWMutex =
  writer :: bool
  readers :: nat

record janitor =
  Interval :: int64

datatype event =
    EvLock | EvUnlock | EvRLock | EvRUnlock
  | EvCallback callback string object

record cache =
  defaultExpiration :: int64
  items :: addr
  mu :: RWMutex
  onEvicted :: "callback option"
  janitor :: "janitor option"
  heap :: "addr \<Rightarrow> (string \<times> Item) list"
  next_addr :: addr
  trace :: "event list"

datatype fault =
    Blocked
  | UnlockOfUnlocked
  | RUnlockOfUnlocked
  | NilFunctionCall

datatype error =
    ItemAlreadyExists string
  | ItemDoNotExists string
  | ItemNotFound string
  | ItemNotNumeric string
  | ValueNotInteger string

type_synonym 'a result = "(fault \<times> cache) + ('a \<times> cache)"

definition entries :: "cache \<Rightarrow> (string \<times> Item) list" where
  "entries c = heap c (items c)"

definition put_entries :: "(string \<times> Item) list \<Rightarrow> cache \<Rightarrow> cache" where
  "put_entries m c = c\<lparr>heap := (heap c)(items c := m)\<rparr>"

definition log_event :: "event \<Rightarrow> cache \<Rightarrow> cache" where
  "log_event e c = c\<lparr>trace := trace c @ [e]\<rparr>"

definition Lock :: "cache \<Rightarrow> (fault \<times> cache) + cache" where
  "Lock c =
     (if writer (mu c) \<or> 0 < readers (mu c) then Inl (Blocked, c)
      else Inr (log_event EvLock (c\<lparr>mu := (mu c)\<lparr>writer := True\<rparr>\<rparr>)))"

definition Unlock :: "cache \<Rightarrow> (fault \<times> cache) + cache" where
  "Unlock c =
     (if writer (mu c) then Inr (log_event EvUnlock (c\<lparr>mu := (mu c)\<lparr>writer := False\<rparr>\<rparr>))
      else Inl (UnlockOfUnlocked, c))"

definition RLock :: "cache \<Rightarrow> (fault \<times> cache) + cache" where
  "RLock c =
     (if writer (mu c) then Inl (Blocked, c)
      else Inr (log_event EvRLock (c\<lparr>mu := (mu c)\<lparr>readers := Suc (readers (mu c))\<rparr>\<rparr>)))"

definition RUnlock :: "cache \<Rightarrow> (fault \<times> cache) + cache" where
  "RUnlock c =
     (if 0 < readers (mu c)
      then Inr (log_event EvRUnlock (c\<lparr>mu := (mu c)\<lparr>readers := readers (mu c) - 1\<rparr>\<rparr>))
      else Inl (RUnlockOfUnlocked, c))"

definition unlocked :: "cache \<Rightarrow> bool" where
  "unlocked c = (\<not> writer (mu c) \<and> readers (mu c) = 0)"

subsection \<open>Writing and reading entries\<close>

definition Set :: "cache \<Rightarrow> string \<Rightarrow> object \<Rightarrow> int64 \<Rightarrow> int64 \<Rightarrow> unit result" where
  "Set c key val d0 now =
     (let d = (if d0 = DefaultExpiration then defaultExpiration c else d0);
          e = (if 0 <s d then now + d else 0)
      in case Lock c of
           Inl f \<Rightarrow> Inl f
         | Inr c1 \<Rightarrow>
             (case Unlock
                     (put_entries
                        (AList.update key \<lparr>Object = val, Expiration = e\<rparr> (entries c1)) c1) of
                Inl f \<Rightarrow> Inl f
              | Inr c2 \<Rightarrow> Inr ((), c2)))"

text \<open>\<^verbatim>\<open>set\<close>: the same without any mutex operation.\<close>

definition set_nolock :: "cache \<Rightarrow> string \<Rightarrow> object \<Rightarrow> int64 \<Rightarrow> int64 \<Rightarrow> cache" where
  "set_nolock c key val d0 now =
     (let d = (if d0 = DefaultExpiration then defaultExpiration c else d0);
          e = (if 0 <s d then now + d else 0)
      in put_entries (AList.update key \<lparr>Object = val, Expiration = e\<rparr> (entries c)) c)"

definition SetDefault :: "cache \<Rightarrow> string \<Rightarrow> object \<Rightarrow> int64 \<Rightarrow> unit result" where
  "SetDefault c key val now = Set c key val DefaultExpiration now"

text \<open>\<^verbatim>\<open>get\<close>: the lookup without any mutex operation, used by \<^verbatim>\<open>Add\<close> and \<^verbatim>\<open>Replace\<close>.\<close>

definition get :: "cache \<Rightarrow> string \<Rightarrow> int64 \<Rightarrow> object \<times> bool" where
  "get c key now =
     (case map_of (entries c) key of
        None \<Rightarrow> (VNil, False)
      | Some item \<Rightarrow>
          (if 0 <s Expiration item \<and> Expiration item <s now then (VNil, False)
           else (Object item, True)))"

definition Add :: "cache \<Rightarrow> string \<Rightarrow> object \<Rightarrow> int64 \<Rightarrow> int64 \<Rightarrow> error option result" where
  "Add c key val d now =
     (case Lock c of
        Inl f \<Rightarrow> Inl f
      | Inr c1 \<Rightarrow>
          (if snd (get c1 key now)
           then (case Unlock c1 of
                   Inl f \<Rightarrow> Inl f
                 | Inr c2 \<Rightarrow> Inr (Some (ItemAlreadyExists key), c2))
           else (case Unlock (set_nolock c1 key val d now) of
                   Inl f \<Rightarrow> Inl f
                 | Inr c2 \<Rightarrow> Inr (None, c2))))"

definition Replace :: "cache \<Rightarrow> string \<Rightarrow> object \<Rightarrow> int64 \<Rightarrow> int64 \<Rightarrow> error option result" where
  "Replace c key val d now =
     (case Lock c of
        Inl f \<Rightarrow> Inl f
      | Inr c1 \<Rightarrow>
          (if \<not> snd (get c1 key now)
           then (case Unlock c1 of
                   Inl f \<Rightarrow> Inl f
                 | Inr c2 \<Rightarrow> Inr (Some (ItemDoNotExists key), c2))
           else (case Unlock (set_nolock c1 key val d now) of
                   Inl f \<Rightarrow> Inl f
                 | Inr c2 \<Rightarrow> Inr (None, c2))))"

definition Get :: "cache \<Rightarrow> string \<Rightarrow> int64 \<Rightarrow> (object \<times> bool) result" where
  "Get c key now =
     (case RLock c of
        Inl f \<Rightarrow> Inl f
      | Inr c1 \<Rightarrow>
          (case map_of (entries c1) key of
             None \<Rightarrow>
               (case RUnlock c1 of Inl f \<Rightarrow> Inl f | Inr c2 \<Rightarrow> Inr ((VNil, False), c2))
           | Some item \<Rightarrow>
               (if Expired item now
                then (case RUnlock c1 of Inl f \<Rightarrow> Inl f | Inr c2 \<Rightarrow> Inr ((VNil, False), c2))
                else (case RUnlock c1 of
                        Inl f \<Rightarrow> Inl f
                      | Inr c2 \<Rightarrow> Inr ((Object item, True), c2)))))"

subsection \<open>Increment and Decrement\<close>

text \<open>
  The floating-point unit is a parameter: the conversion from \<^verbatim>\<open>int64\<close> and the two
  operations, for each of the two formats, on bit patterns.
\<close>

record fpu =
  f32_of_int64 :: "64 word \<Rightarrow> 32 word"
  f32_add :: "32 word \<Rightarrow> 32 word \<Rightarrow> 32 word"
  f32_sub :: "32 word \<Rightarrow> 32 word \<Rightarrow> 32 word"
  f64_of_int64 :: "64 word \<Rightarrow> 64 word"
  f64_add :: "64 word \<Rightarrow> 64 word \<Rightarrow> 64 word"
  f64_sub :: "64 word \<Rightarrow> 64 word \<Rightarrow> 64 word"

text \<open>
  The type switch of \<^verbatim>\<open>Increment\<close>; \<open>None\<close> is its \<^verbatim>\<open>default\<close> branch. A conversion
  such as \<^verbatim>\<open>int8(n)\<close> keeps the low bits of \<open>n\<close>.
\<close>

fun increment_switch :: "fpu \<Rightarrow> object \<Rightarrow> int64 \<Rightarrow> object option" where
  "increment_switch fp (VInt x) n = Some (VInt (x + n))"
| "increment_switch fp (VInt8 x) n = Some (VInt8 (x + ucast n))"
| "increment_switch fp (VInt16 x) n = Some (VInt16 (x + ucast n))"
| "increment_switch fp (VInt32 x) n = Some (VInt32 (x + ucast n))"
| "increment_switch fp (VInt64 x) n = Some (VInt64 (x + n))"
| "increment_switch fp (VUint x) n = Some (VUint (x + n))"
| "increment_switch fp (VUintptr x) n = Some (VUintptr (x + n))"
| "increment_switch fp (VUint8 x) n = Some (VUint8 (x + ucast n))"
| "increment_switch fp (VUint16 x) n = Some (VUint16 (x + ucast n))"
| "increment_switch fp (VUint32 x) n = Some (VUint32 (x + ucast n))"
| "increment_switch fp (VUint64 x) n = Some (VUint64 (x + n))"
| "increment_switch fp (VFloat32 x) n = Some (VFloat32 (f32_add fp x (f32_of_int64 fp n)))"
| "increment_switch fp (VFloat64 x) n = Some (VFloat64 (f64_add fp x (f64_of_int64 fp n)))"
| "increment_switch fp _ n = None"

fun decrement_switch :: "fpu \<Rightarrow> object \<Rightarrow> int64 \<Rightarrow> object option" where
  "decrement_switch fp (VInt x) n = Some (VInt (x - n))"
| "decrement_switch fp (VInt8 x) n = Some (VInt8 (x - ucast n))"
| "decrement_switch fp (VInt16 x) n = Some (VInt16 (x - ucast n))"
| "decrement_switch fp (VInt32 x) n = Some (VInt32 (x - ucast n))"
| "decrement_switch fp (VInt64 x) n = Some (VInt64 (x - n))"
| "decrement_switch fp (VUint x) n = Some (VUint (x - n))"
| "decrement_switch fp (VUintptr x) n = Some (VUintptr (x - n))"
| "decrement_switch fp (VUint8 x) n = Some (VUint8 (x - ucast n))"
| "decrement_switch fp (VUint16 x) n = Some (VUint16 (x - ucast n))"
| "decrement_switch fp (VUint32 x) n = Some (VUint32 (x - ucast n))"
| "decrement_switch fp (VUint64 x) n = Some (VUint64 (x - n))"
| "decrement_switch fp (VFloat32 x) n = Some (VFloat32 (f32_sub fp x (f32_of_int64 fp n)))"
| "decrement_switch fp (VFloat64 x) n = Some (VFloat64 (f64_sub fp x (f64_of_int64 fp n)))"
| "decrement_switch fp _ n = None"

text \<open>
  \<^verbatim>\<open>Increment\<close>: neither the not-found branch nor the \<^verbatim>\<open>default\<close> branch of the switch
  calls \<^verbatim>\<open>Unlock\<close> before it returns.
\<close>

definition Increment :: "fpu \<Rightarrow> cache \<Rightarrow> string \<Rightarrow> int64 \<Rightarrow> int64 \<Rightarrow> error option result" where
  "Increment fp c key n now =
     (case Lock c of
        Inl f \<Rightarrow> Inl f
      | Inr c1 \<Rightarrow>
          (case map_of (entries c1) key of
             None \<Rightarrow> Inr (Some (ItemNotFound key), c1)
           | Some item \<Rightarrow>
               (if Expired item now then Inr (Some (ItemNotFound key), c1)
                else (case increment_switch fp (Object item) n of
                        None \<Rightarrow> Inr (Some (ItemNotNumeric key), c1)
                      | Some v \<Rightarrow>
                          (case Unlock
                                  (put_entries
                                     (AList.update key (item\<lparr>Object := v\<rparr>) (entries c1)) c1) of
                             Inl f \<Rightarrow> Inl f
                           | Inr c2 \<Rightarrow> Inr (None, c2))))))"

definition Decrement :: "fpu \<Rightarrow> cache \<Rightarrow> string \<Rightarrow> int64 \<Rightarrow> int64 \<Rightarrow> error option result" where
  "Decrement fp c key n now =
     (case Lock c of
        Inl f \<Rightarrow> Inl f
      | Inr c1 \<Rightarrow>
          (case map_of (entries c1) key of
             None \<Rightarrow>
               (case Unlock c1 of
                  Inl f \<Rightarrow> Inl f
                | Inr c2 \<Rightarrow> Inr (Some (ItemNotFound key), c2))
           | Some item \<Rightarrow>
               (if Expired item now
                then (case Unlock c1 of
                        Inl f \<Rightarrow> Inl f
                      | Inr c2 \<Rightarrow> Inr (Some (ItemNotFound key), c2))
                else (case decrement_switch fp (Object item) n of
                        None \<Rightarrow>
                          (case Unlock c1 of
                             Inl f \<Rightarrow> Inl f
                           | Inr c2 \<Rightarrow> Inr (Some (ValueNotInteger key), c2))
                      | Some v \<Rightarrow>
                          (case Unlock
                                  (put_entries
                                     (AList.update key (item\<lparr>Object := v\<rparr>) (entries c1)) c1) of
                             Inl f \<Rightarrow> Inl f
                           | Inr c2 \<Rightarrow> Inr (None, c2))))))"

subsection \<open>Deletion, the sweep and the eviction callback\<close>

text \<open>\<^verbatim>\<open>delete\<close>: no mutex operation; the flag says whether the callback is due.\<close>

definition delete :: "cache \<Rightarrow> string \<Rightarrow> (object \<times> bool) \<times> cache" where
  "delete c key =
     (case onEvicted c of
        None \<Rightarrow> ((VNil, False), put_entries (AList.delete key (entries c)) c)
      | Some f \<Rightarrow>
          (case map_of (entries c) key of
             Some item \<Rightarrow> ((Object item, True), put_entries (AList.delete key (entries c)) c)
           | None \<Rightarrow> ((VNil, False), put_entries (AList.delete key (entries c)) c)))"

text \<open>
  The call \<^verbatim>\<open>c.onEvicted(key, v)\<close>. The callback is code of the caller: the model
  records the invocation and leaves the cache as it is. Calling a nil function panics.
\<close>

definition call_onEvicted :: "cache \<Rightarrow> string \<Rightarrow> object \<Rightarrow> (fault \<times> cache) + cache" where
  "call_onEvicted c key v =
     (case onEvicted c of
        None \<Rightarrow> Inl (NilFunctionCall, c)
      | Some f \<Rightarrow> Inr (log_event (EvCallback f key v) c))"

definition Delete :: "cache \<Rightarrow> string \<Rightarrow> unit result" where
  "Delete c key =
     (case Lock c of
        Inl f \<Rightarrow> Inl f
      | Inr c1 \<Rightarrow>
          (case delete c1 key of
             ((v, evicted), c2) \<Rightarrow>
               (case Unlock c2 of
                  Inl f \<Rightarrow> Inl f
                | Inr c3 \<Rightarrow>
                    (if evicted
                     then (case call_onEvicted c3 key v of
                             Inl f \<Rightarrow> Inl f
                           | Inr c4 \<Rightarrow> Inr ((), c4))
                     else Inr ((), c3)))))"

text \<open>
  The first loop of \<^verbatim>\<open>DeleteExpired\<close>, over the entries the map holds when the loop
  starts: the body deletes no key but the one it visits.
\<close>

fun DeleteExpired_range ::
  "(string \<times> Item) list \<Rightarrow> int64 \<Rightarrow> cache \<Rightarrow> (string \<times> object) list
     \<Rightarrow> cache \<times> (string \<times> object) list" where
  "DeleteExpired_range [] now c evictedItems = (c, evictedItems)"
| "DeleteExpired_range ((key, item) # rest) now c evictedItems =
     (if Expired item now
      then (case delete c key of
              ((v, evicted), c') \<Rightarrow>
                (if evicted then DeleteExpired_range rest now c' (evictedItems @ [(key, v)])
                 else DeleteExpired_range rest now c' evictedItems))
      else DeleteExpired_range rest now c evictedItems)"

text \<open>The second loop: one call of the callback for each collected pair.\<close>

fun DeleteExpired_notify :: "(string \<times> object) list \<Rightarrow> cache \<Rightarrow> (fault \<times> cache) + cache" where
  "DeleteExpired_notify [] c = Inr c"
| "DeleteExpired_notify ((key, v) # rest) c =
     (case call_onEvicted c key v of
        Inl f \<Rightarrow> Inl f
      | Inr c' \<Rightarrow> DeleteExpired_notify rest c')"

text \<open>
  \<^verbatim>\<open>DeleteExpired\<close>: \<^verbatim>\<open>Lock\<close>, \<^verbatim>\<open>defer Unlock\<close>, the first loop, an explicit
  \<^verbatim>\<open>Unlock\<close>, the second loop, and on return the deferred \<^verbatim>\<open>Unlock\<close>.
\<close>

definition DeleteExpired :: "cache \<Rightarrow> int64 \<Rightarrow> unit result" where
  "DeleteExpired c now =
     (case Lock c of
        Inl f \<Rightarrow> Inl f
      | Inr c1 \<Rightarrow>
          (case DeleteExpired_range (entries c1) now c1 [] of
             (c2, evictedItems) \<Rightarrow>
               (case Unlock c2 of
                  Inl f \<Rightarrow> Inl f
                | Inr c3 \<Rightarrow>
                    (case DeleteExpired_notify evictedItems c3 of
                       Inl f \<Rightarrow> Inl f
                     | Inr c4 \<Rightarrow>
                         (case Unlock c4 of
                            Inl f \<Rightarrow> Inl f
                          | Inr c5 \<Rightarrow> Inr ((), c5))))))"

definition OnEvicted :: "cache \<Rightarrow> callback option \<Rightarrow> unit result" where
  "OnEvicted c f =
     (case Lock c of
        Inl e \<Rightarrow> Inl e
      | Inr c1 \<Rightarrow>
          (case Unlock (c1\<lparr>onEvicted := f\<rparr>) of
             Inl e \<Rightarrow> Inl e
           | Inr c2 \<Rightarrow> Inr ((), c2)))"

subsection \<open>Snapshots of the map, its size, clearing it\<close>

text \<open>\<^verbatim>\<open>make(map[string]Item)\<close>: a new, empty map at an address not in use.\<close>

definition make_map :: "cache \<Rightarrow> addr \<times> cache" where
  "make_map c =
     (next_addr c, c\<lparr>heap := (heap c)(next_addr c := []), next_addr := Suc (next_addr c)\<rparr>)"

text \<open>The loop of \<^verbatim>\<open>Items\<close>: \<^verbatim>\<open>m[k] = item\<close> for every entry that has not expired.\<close>

fun Items_range :: "(string \<times> Item) list \<Rightarrow> int64 \<Rightarrow> addr \<Rightarrow> cache \<Rightarrow> cache" where
  "Items_range [] now m c = c"
| "Items_range ((k, item) # rest) now m c =
     (if \<not> Expired item now
      then Items_range rest now m (c\<lparr>heap := (heap c)(m := AList.update k item (heap c m))\<rparr>)
      else Items_range rest now m c)"

definition Items :: "cache \<Rightarrow> int64 \<Rightarrow> addr result" where
  "Items c now =
     (case RLock c of
        Inl f \<Rightarrow> Inl f
      | Inr c1 \<Rightarrow>
          (case make_map c1 of
             (m, c2) \<Rightarrow>
               (case RUnlock (Items_range (entries c2) now m c2) of
                  Inl f \<Rightarrow> Inl f
                | Inr c3 \<Rightarrow> Inr (m, c3))))"

definition ItemCount :: "cache \<Rightarrow> int result" where
  "ItemCount c =
     (case RLock c of
        Inl f \<Rightarrow> Inl f
      | Inr c1 \<Rightarrow>
          (case RUnlock c1 of
             Inl f \<Rightarrow> Inl f
           | Inr c2 \<Rightarrow> Inr (int (length (entries c1)), c2)))"

definition Flush :: "cache \<Rightarrow> unit result" where
  "Flush c =
     (case Lock c of
        Inl f \<Rightarrow> Inl f
      | Inr c1 \<Rightarrow>
          (case make_map c1 of
             (m, c2) \<Rightarrow>
               (case Unlock (c2\<lparr>items := m\<rparr>) of
                  Inl f \<Rightarrow> Inl f
                | Inr c3 \<Rightarrow> Inr ((), c3))))"

subsection \<open>Construction\<close>

text \<open>
  The constructors take the store of maps they are called in (\<open>hp\<close>, and the next free
  address \<open>nx\<close>). The goroutine that \<^verbatim>\<open>RunJanitor\<close> starts is not part of the model; the
  field \<open>janitor\<close> records that one was created.
\<close>

definition newCache :: "int64 \<Rightarrow> addr \<Rightarrow> (addr \<Rightarrow> (string \<times> Item) list) \<Rightarrow> addr \<Rightarrow> cache" where
  "newCache d m hp nx =
     \<lparr>defaultExpiration = (if d = 0 then - 1 else d),
      items = m,
      mu = \<lparr>writer = False, readers = 0\<rparr>,
      onEvicted = None,
      janitor = None,
      heap = hp,
      next_addr = nx,
      trace = []\<rparr>"

definition newCacheWithJanitor ::
  "int64 \<Rightarrow> int64 \<Rightarrow> addr \<Rightarrow> (addr \<Rightarrow> (string \<times> Item) list) \<Rightarrow> addr \<Rightarrow> cache" where
  "newCacheWithJanitor d interval m hp nx =
     (let c = newCache d m hp nx
      in if 0 <s interval then c\<lparr>janitor := Some \<lparr>Interval = interval\<rparr>\<rparr> else c)"

definition NewCache :: "int64 \<Rightarrow> int64 \<Rightarrow> (addr \<Rightarrow> (string \<times> Item) list) \<Rightarrow> addr \<Rightarrow> cache" where
  "NewCache d interval hp nx = newCacheWithJanitor d interval nx (hp(nx := [])) (Suc nx)"

definition NewFrom ::
  "int64 \<Rightarrow> int64 \<Rightarrow> addr \<Rightarrow> (addr \<Rightarrow> (string \<times> Item) list) \<Rightarrow> addr \<Rightarrow> cache" where
  "NewFrom d interval m hp nx = newCacheWithJanitor d interval m hp nx"

subsection \<open>Observing the outcome of a call\<close>

text \<open>What a call returned, if it returned, and the state it left behind in either case.\<close>

definition returned :: "'a result \<Rightarrow> 'a option" where
  "returned r = (case r of Inl _ \<Rightarrow> None | Inr (x, _) \<Rightarrow> Some x)"

definition state_after :: "'a result \<Rightarrow> cache" where
  "state_after r = (case r of Inl (_, c) \<Rightarrow> c | Inr (_, c) \<Rightarrow> c)"

definition faulted :: "'a result \<Rightarrow> fault option" where
  "faulted r = (case r of Inl (f, _) \<Rightarrow> Some f | Inr _ \<Rightarrow> None)"

text \<open>The store in which no map has been written yet.\<close>

definition empty_heap :: "addr \<Rightarrow> (string \<times> Item) list" where
  "empty_heap a = []"

text \<open>
  The expiration timestamp that \<^verbatim>\<open>Set\<close> and \<^verbatim>\<open>set\<close> compute from the duration they
  are given (their first two statements).
\<close>

definition expiration_of :: "cache \<Rightarrow> int64 \<Rightarrow> int64 \<Rightarrow> int64" where
  "expiration_of c d0 now =
     (let d = (if d0 = DefaultExpiration then defaultExpiration c else d0)
      in if 0 <s d then now + d else 0)"

subsection \<open>Kinds of values\<close>

text \<open>The values that the type switches of \<^verbatim>\<open>Increment\<close> and \<^verbatim>\<open>Decrement\<close> accept.\<close>

fun is_numeric :: "object \<Rightarrow> bool" where
  "is_numeric VNil = False"
| "is_numeric (VStr s) = False"
| "is_numeric (VOpaque t) = False"
| "is_numeric _ = True"

text \<open>The name of the dynamic type of a value.\<close>

fun type_name :: "object \<Rightarrow> string" where
  "type_name VNil = ''nil''"
| "type_name (VInt x) = ''int''"
| "type_name (VInt8 x) = ''int8''"
| "type_name (VInt16 x) = ''int16''"
| "type_name (VInt32 x) = ''int32''"
| "type_name (VInt64 x) = ''int64''"
| "type_name (VUint x) = ''uint''"
| "type_name (VUintptr x) = ''uintptr''"
| "type_name (VUint8 x) = ''uint8''"
| "type_name (VUint16 x) = ''uint16''"
| "type_name (VUint32 x) = ''uint32''"
| "type_name (VUint64 x) = ''uint64''"
| "type_name (VFloat32 x) = ''float32''"
| "type_name (VFloat64 x) = ''float64''"
| "type_name (VStr s) = ''string''"
| "type_name (VOpaque t) = ''other''"

text \<open>
  Following the words of the specification, not the code: the new value is the stored
  value plus (respectively minus) the delta, in the stored value's own numeric kind. For
  an integer kind of width \<open>w\<close> this is the sum of the two integers, the stored one read
  as signed or unsigned according to its kind, taken modulo \<open>2 ^ w\<close> (\<open>word_of_int\<close>);
  for a floating-point kind it is the unit's operation on the converted delta.
\<close>

fun spec_plus_delta :: "fpu \<Rightarrow> object \<Rightarrow> int \<Rightarrow> object" where
  "spec_plus_delta fp (VInt x) k = VInt (word_of_int (sint x + k))"
| "spec_plus_delta fp (VInt8 x) k = VInt8 (word_of_int (sint x + k))"
| "spec_plus_delta fp (VInt16 x) k = VInt16 (word_of_int (sint x + k))"
| "spec_plus_delta fp (VInt32 x) k = VInt32 (word_of_int (sint x + k))"
| "spec_plus_delta fp (VInt64 x) k = VInt64 (word_of_int (sint x + k))"
| "spec_plus_delta fp (VUint x) k = VUint (word_of_int (uint x + k))"
| "spec_plus_delta fp (VUintptr x) k = VUintptr (word_of_int (uint x + k))"
| "spec_plus_delta fp (VUint8 x) k = VUint8 (word_of_int (uint x + k))"
| "spec_plus_delta fp (VUint16 x) k = VUint16 (word_of_int (uint x + k))"
| "spec_plus_delta fp (VUint32 x) k = VUint32 (word_of_int (uint x + k))"
| "spec_plus_delta fp (VUint64 x) k = VUint64 (word_of_int (uint x + k))"
| "spec_plus_delta fp (VFloat32 x) k = VFloat32 (f32_add fp x (f32_of_int64 fp (word_of_int k)))"
| "spec_plus_delta fp (VFloat64 x) k = VFloat64 (f64_add fp x (f64_of_int64 fp (word_of_int k)))"
| "spec_plus_delta fp v k = v"

fun spec_minus_delta :: "fpu \<Rightarrow> object \<Rightarrow> int \<Rightarrow> object" where
  "spec_minus_delta fp (VInt x) k = VInt (word_of_int (sint x - k))"
| "spec_minus_delta fp (VInt8 x) k = VInt8 (word_of_int (sint x - k))"
| "spec_minus_delta fp (VInt16 x) k = VInt16 (word_of_int (sint x - k))"
| "spec_minus_delta fp (VInt32 x) k = VInt32 (word_of_int (sint x - k))"
| "spec_minus_delta fp (VInt64 x) k = VInt64 (word_of_int (sint x - k))"
| "spec_minus_delta fp (VUint x) k = VUint (word_of_int (uint x - k))"
| "spec_minus_delta fp (VUintptr x) k = VUintptr (word_of_int (uint x - k))"
| "spec_minus_delta fp (VUint8 x) k = VUint8 (word_of_int (uint x - k))"
| "spec_minus_delta fp (VUint16 x) k = VUint16 (word_of_int (uint x - k))"
| "spec_minus_delta fp (VUint32 x) k = VUint32 (word_of_int (uint x - k))"
| "spec_minus_delta fp (VUint64 x) k = VUint64 (word_of_int (uint x - k))"
| "spec_minus_delta fp (VFloat32 x) k = VFloat32 (f32_sub fp x (f32_of_int64 fp (word_of_int k)))"
| "spec_minus_delta fp (VFloat64 x) k = VFloat64 (f64_sub fp x (f64_of_int64 fp (word_of_int k)))"
| "spec_minus_delta fp v k = v"

text \<open>
  A unit for the examples below, none of which stores a floating-point value: it works on
  the bit patterns as on integers.
\<close>

definition example_fpu :: fpu where
  "example_fpu =
     \<lparr>f32_of_int64 = ucast, f32_add = (+), f32_sub = (-),
      f64_of_int64 = id, f64_add = (+), f64_sub = (-)\<rparr>"

subsection \<open>The representation invariant\<close>

text \<open>
  The map of the cache has been allocated, and its association list has distinct keys,
  as the keys of a Go map are.
\<close>

definition wellformed :: "cache \<Rightarrow> bool" where
  "wellformed c = (items c < next_addr c \<and> distinct (map fst (entries c)))"

section \<open>Basic facts\<close>

lemma entries_put_entries [simp]: "entries (put_entries m c) = m"
  by (simp add: entries_def put_entries_def)

lemma put_entries_fields [simp]:
  "mu (put_entries m c) = mu c"
  "trace (put_entries m c) = trace c"
  "onEvicted (put_entries m c) = onEvicted c"
  "items (put_entries m c) = items c"
  "next_addr (put_entries m c) = next_addr c"
  "defaultExpiration (put_entries m c) = defaultExpiration c"
  by (simp_all add: put_entries_def)

lemma log_event_fields [simp]:
  "mu (log_event e c) = mu c"
  "trace (log_event e c) = trace c @ [e]"
  "onEvicted (log_event e c) = onEvicted c"
  "items (log_event e c) = items c"
  "next_addr (log_event e c) = next_addr c"
  "defaultExpiration (log_event e c) = defaultExpiration c"
  "entries (log_event e c) = entries c"
  "heap (log_event e c) = heap c"
  by (simp_all add: log_event_def entries_def)

lemma Lock_unlocked:
  "unlocked c \<Longrightarrow> Lock c = Inr (log_event EvLock (c\<lparr>mu := (mu c)\<lparr>writer := True\<rparr>\<rparr>))"
  by (simp add: Lock_def unlocked_def)

lemma Lock_held: "writer (mu c) \<Longrightarrow> Lock c = Inl (Blocked, c)"
  by (simp add: Lock_def)

section \<open>The representation invariant is kept\<close>

lemma NewCache_wellformed: "wellformed (NewCache d interval hp nx)"
  by (simp add: wellformed_def NewCache_def newCacheWithJanitor_def newCache_def Let_def
      entries_def)

lemma Set_wellformed: "wellformed c \<Longrightarrow> wellformed (state_after (Set c key val d now))"
  by (simp add: wellformed_def Set_def Lock_def Unlock_def state_after_def entries_def
      put_entries_def log_event_def Let_def distinct_update)

lemma Add_wellformed: "wellformed c \<Longrightarrow> wellformed (state_after (Add c key val d now))"
  by (simp add: wellformed_def Add_def set_nolock_def Lock_def Unlock_def state_after_def
      entries_def put_entries_def log_event_def Let_def distinct_update)

lemma Replace_wellformed:
  "wellformed c \<Longrightarrow> wellformed (state_after (Replace c key val d now))"
  by (simp add: wellformed_def Replace_def set_nolock_def Lock_def Unlock_def state_after_def
      entries_def put_entries_def log_event_def Let_def distinct_update)

lemma Increment_wellformed:
  "wellformed c \<Longrightarrow> wellformed (state_after (Increment fp c key n now))"
  by (simp add: wellformed_def Increment_def Lock_def Unlock_def state_after_def
      entries_def put_entries_def log_event_def distinct_update split: option.split)

lemma Decrement_wellformed:
  "wellformed c \<Longrightarrow> wellformed (state_after (Decrement fp c key n now))"
  by (simp add: wellformed_def Decrement_def Lock_def Unlock_def state_after_def
      entries_def put_entries_def log_event_def distinct_update split: option.split)

lemma Delete_wellformed: "wellformed c \<Longrightarrow> wellformed (state_after (Delete c key))"
  by (simp add: wellformed_def Delete_def delete_def call_onEvicted_def Lock_def Unlock_def
      state_after_def entries_def put_entries_def log_event_def distinct_delete
      split: option.split)

lemma Flush_wellformed: "wellformed c \<Longrightarrow> wellformed (state_after (Flush c))"
  by (simp add: wellformed_def Flush_def make_map_def Lock_def Unlock_def state_after_def
      entries_def log_event_def)

lemma Get_wellformed: "wellformed c \<Longrightarrow> wellformed (state_after (Get c key now))"
  by (simp add: wellformed_def Get_def RLock_def RUnlock_def state_after_def
      entries_def log_event_def split: option.split)

section \<open>The mutex in Increment and Decrement\<close>

text \<open>
  \<^verbatim>\<open>Decrement\<close> releases the mutex on each of its four paths. \<^verbatim>\<open>Increment\<close> releases it
  on the successful path only: after a failed call the mutex stays held, and the next
  call that needs it never returns.
\<close>

lemma Decrement_releases_lock:
  "unlocked c \<Longrightarrow>
   \<exists>r c'. Decrement fp c key n now = Inr (r, c') \<and> unlocked c'
     \<and> trace c' = trace c @ [EvLock, EvUnlock]"
  by (simp add: Decrement_def Lock_unlocked Unlock_def unlocked_def
      split: option.split)

lemma Increment_not_found_keeps_lock:
  "unlocked c \<Longrightarrow> map_of (entries c) key = None \<Longrightarrow>
   Increment fp c key n now =
     Inr (Some (ItemNotFound key), log_event EvLock (c\<lparr>mu := (mu c)\<lparr>writer := True\<rparr>\<rparr>))"
  by (simp add: Increment_def Lock_unlocked entries_def)

lemma Increment_expired_keeps_lock:
  "unlocked c \<Longrightarrow> map_of (entries c) key = Some item \<Longrightarrow> Expired item now \<Longrightarrow>
   Increment fp c key n now =
     Inr (Some (ItemNotFound key), log_event EvLock (c\<lparr>mu := (mu c)\<lparr>writer := True\<rparr>\<rparr>))"
  by (simp add: Increment_def Lock_unlocked entries_def)

lemma Increment_not_numeric_keeps_lock:
  "unlocked c \<Longrightarrow> map_of (entries c) key = Some item \<Longrightarrow> \<not> Expired item now \<Longrightarrow>
   increment_switch fp (Object item) n = None \<Longrightarrow>
   Increment fp c key n now =
     Inr (Some (ItemNotNumeric key), log_event EvLock (c\<lparr>mu := (mu c)\<lparr>writer := True\<rparr>\<rparr>))"
  by (simp add: Increment_def Lock_unlocked entries_def)

lemma Increment_blocks_when_held:
  "writer (mu c) \<Longrightarrow> Increment fp c key n now = Inl (Blocked, c)"
  by (simp add: Increment_def Lock_held)

text \<open>
  Claim C1. Every return path of \<^verbatim>\<open>Increment\<close> and of \<^verbatim>\<open>Decrement\<close> should release the
  mutex exactly once, so that two calls of \<^verbatim>\<open>Increment\<close> on a missing key in a row do not
  hang. The code does otherwise: on a new cache, \<^verbatim>\<open>Increment\<close> of a missing key returns
  the not-found error with the mutex still held for writing, having logged one \<^verbatim>\<open>Lock\<close>
  and no \<^verbatim>\<open>Unlock\<close>, and the second call blocks on \<^verbatim>\<open>Lock\<close>.
\<close>

theorem Increment_missing_key_twice:
  "returned (Increment fp (NewCache 0 0 empty_heap 0) ''k'' 1 now)
     = Some (Some (ItemNotFound ''k''))
   \<and> writer (mu (state_after (Increment fp (NewCache 0 0 empty_heap 0) ''k'' 1 now)))
   \<and> trace (state_after (Increment fp (NewCache 0 0 empty_heap 0) ''k'' 1 now)) = [EvLock]
   \<and> faulted (Increment fp (state_after (Increment fp (NewCache 0 0 empty_heap 0) ''k'' 1 now))
         ''k'' 1 now') = Some Blocked"
  by (simp add: Increment_def Lock_def NewCache_def newCacheWithJanitor_def newCache_def
      entries_def log_event_def returned_def state_after_def faulted_def empty_heap_def)

section \<open>The sweep\<close>

lemma delete_fields [simp]:
  "mu (snd (delete c key)) = mu c"
  "trace (snd (delete c key)) = trace c"
  "onEvicted (snd (delete c key)) = onEvicted c"
  by (simp_all add: delete_def split: option.split)

lemma DeleteExpired_range_fields:
  "mu (fst (DeleteExpired_range xs now c ev)) = mu c
   \<and> trace (fst (DeleteExpired_range xs now c ev)) = trace c
   \<and> onEvicted (fst (DeleteExpired_range xs now c ev)) = onEvicted c"
proof (induction xs now c ev rule: DeleteExpired_range.induct)
  case (1 now c ev)
  then show ?case by simp
next
  case (2 key item rest now c ev)
  show ?case
  proof (cases "Expired item now")
    case False
    with 2 show ?thesis by simp
  next
    case True
    obtain v evicted c' where d: "delete c key = ((v, evicted), c')"
      by (metis prod.exhaust)
    have f: "mu c' = mu c" "trace c' = trace c" "onEvicted c' = onEvicted c"
      using delete_fields [of c key] d by simp_all
    show ?thesis
      using True d f 2(1) [OF True d [symmetric] refl] 2(2) [OF True d [symmetric] refl]
      by (cases evicted) simp_all
  qed
qed

lemma DeleteExpired_notify_mu:
  "DeleteExpired_notify ev c = Inr c' \<Longrightarrow> mu c' = mu c"
proof (induction ev arbitrary: c)
  case Nil
  then show ?case by simp
next
  case (Cons p ev)
  obtain key v where p: "p = (key, v)" by (cases p)
  from Cons.prems p obtain c1 where
    1: "call_onEvicted c key v = Inr c1" and 2: "DeleteExpired_notify ev c1 = Inr c'"
    by (auto split: sum.splits)
  from 1 have "mu c1 = mu c" by (auto simp: call_onEvicted_def split: option.splits)
  with Cons.IH [OF 2] show ?case by simp
qed

text \<open>
  Whatever the state, \<^verbatim>\<open>DeleteExpired\<close> does not return: when it gets the mutex, the
  explicit \<^verbatim>\<open>Unlock\<close> after the first loop releases it, and the deferred \<^verbatim>\<open>Unlock\<close>
  then finds it released.
\<close>

lemma DeleteExpired_never_returns: "returned (DeleteExpired c now) = None"
proof (cases "Lock c")
  case (Inl f)
  then show ?thesis by (simp add: DeleteExpired_def returned_def)
next
  case (Inr c1)
  obtain c2 ev where r: "DeleteExpired_range (entries c1) now c1 [] = (c2, ev)"
    by (metis prod.exhaust)
  show ?thesis
  proof (cases "Unlock c2")
    case (Inl f)
    with Inr r show ?thesis by (simp add: DeleteExpired_def returned_def)
  next
    case u: (Inr c3)
    then have w3: "\<not> writer (mu c3)" by (auto simp: Unlock_def split: if_splits)
    show ?thesis
    proof (cases "DeleteExpired_notify ev c3")
      case (Inl f)
      with Inr r u show ?thesis by (simp add: DeleteExpired_def returned_def)
    next
      case n: (Inr c4)
      from DeleteExpired_notify_mu [OF n] w3 have "Unlock c4 = Inl (UnlockOfUnlocked, c4)"
        by (simp add: Unlock_def)
      with Inr r u n show ?thesis by (simp add: DeleteExpired_def returned_def)
    qed
  qed
qed

lemma delete_without_callback:
  "onEvicted c = None \<Longrightarrow> \<not> snd (fst (delete c key))"
  by (simp add: delete_def)

lemma DeleteExpired_range_without_callback:
  "onEvicted c = None \<Longrightarrow> snd (DeleteExpired_range xs now c ev) = ev"
proof (induction xs now c ev rule: DeleteExpired_range.induct)
  case (1 now c ev)
  then show ?case by simp
next
  case (2 key item rest now c ev)
  show ?case
  proof (cases "Expired item now")
    case False
    with 2 show ?thesis by simp
  next
    case True
    obtain v evicted c' where d: "delete c key = ((v, evicted), c')"
      by (metis prod.exhaust)
    from delete_without_callback [OF "2.prems", of key] d have ne: "\<not> evicted" by simp
    from delete_fields(3) [of c key] d "2.prems" have "onEvicted c' = None" by simp
    from "2.IH"(2) [OF True d [symmetric] refl ne this] True d ne show ?thesis by simp
  qed
qed

lemma DeleteExpired_notify_with_callback:
  "onEvicted c = Some f \<Longrightarrow> \<exists>c'. DeleteExpired_notify ev c = Inr c'"
proof (induction ev arbitrary: c)
  case Nil
  then show ?case by simp
next
  case (Cons p ev)
  obtain key v where p: "p = (key, v)" by (cases p)
  have "onEvicted (log_event (EvCallback f key v) c) = Some f"
    using Cons.prems by simp
  from Cons.IH [OF this] p Cons.prems show ?case
    by (simp add: call_onEvicted_def)
qed

text \<open>
  Started with the mutex free, the call ends in the fatal error of the deferred
  \<^verbatim>\<open>Unlock\<close>, whatever the map holds and whether or not a callback is registered.
\<close>

lemma DeleteExpired_unlocked_fault:
  "unlocked c \<Longrightarrow> faulted (DeleteExpired c now) = Some UnlockOfUnlocked"
proof -
  assume u: "unlocked c"
  let ?c1 = "log_event EvLock (c\<lparr>mu := (mu c)\<lparr>writer := True\<rparr>\<rparr>)"
  obtain c2 ev where r: "DeleteExpired_range (entries ?c1) now ?c1 [] = (c2, ev)"
    by (metis prod.exhaust)
  from DeleteExpired_range_fields [of "entries ?c1" now ?c1 "[]"] r
  have m2: "mu c2 = (mu c)\<lparr>writer := True\<rparr>" and o2: "onEvicted c2 = onEvicted c"
    by simp_all
  let ?c3 = "log_event EvUnlock (c2\<lparr>mu := (mu c2)\<lparr>writer := False\<rparr>\<rparr>)"
  have un: "Unlock c2 = Inr ?c3" using m2 by (simp add: Unlock_def)
  have "\<exists>c4. DeleteExpired_notify ev ?c3 = Inr c4"
  proof (cases "onEvicted c")
    case None
    then have "ev = []"
      using DeleteExpired_range_without_callback [of ?c1 "entries ?c1" now "[]"] r by simp
    then show ?thesis by simp
  next
    case (Some f)
    with o2 have "onEvicted ?c3 = Some f" by simp
    then show ?thesis by (rule DeleteExpired_notify_with_callback)
  qed
  then obtain c4 where n: "DeleteExpired_notify ev ?c3 = Inr c4" ..
  from DeleteExpired_notify_mu [OF n] have "\<not> writer (mu c4)" by simp
  then have "Unlock c4 = Inl (UnlockOfUnlocked, c4)" by (simp add: Unlock_def)
  with r un n show ?thesis
    by (simp add: DeleteExpired_def Lock_unlocked [OF u] faulted_def)
qed

text \<open>
  Claim C2. The sweep should release the mutex exactly once and never unlock a mutex that
  is not locked. The code does otherwise. On a cache with a callback, an expired entry
  \<open>a\<close> and a lasting entry \<open>b\<close>, swept at time 10: the mutex is taken, released by the
  explicit \<^verbatim>\<open>Unlock\<close>, the callback runs for \<open>a\<close>, and the deferred \<^verbatim>\<open>Unlock\<close> is the
  fatal error of unlocking an unlocked mutex. The same happens on a new, empty cache.
\<close>

theorem DeleteExpired_double_unlock:
  "faulted (DeleteExpired
      ((NewFrom 0 0 0 (empty_heap(0 := [(''a'', \<lparr>Object = VInt 1, Expiration = 5\<rparr>),
                                       (''b'', \<lparr>Object = VStr ''x'', Expiration = 0\<rparr>)])) 1)
         \<lparr>onEvicted := Some 7\<rparr>) 10) = Some UnlockOfUnlocked
   \<and> trace (state_after (DeleteExpired
      ((NewFrom 0 0 0 (empty_heap(0 := [(''a'', \<lparr>Object = VInt 1, Expiration = 5\<rparr>),
                                       (''b'', \<lparr>Object = VStr ''x'', Expiration = 0\<rparr>)])) 1)
         \<lparr>onEvicted := Some 7\<rparr>) 10))
      = [EvLock, EvUnlock, EvCallback 7 ''a'' (VInt 1)]
   \<and> faulted (DeleteExpired (NewCache 0 0 empty_heap 0) now) = Some UnlockOfUnlocked"
  by (simp add: DeleteExpired_def Lock_def Unlock_def NewFrom_def NewCache_def
      newCacheWithJanitor_def newCache_def entries_def log_event_def put_entries_def
      state_after_def faulted_def empty_heap_def Expired_def delete_def call_onEvicted_def)

section \<open>What the calls return and leave behind\<close>

lemma Set_result:
  "unlocked c \<Longrightarrow>
   returned (Set c key val d now) = Some ()
   \<and> entries (state_after (Set c key val d now))
       = AList.update key \<lparr>Object = val, Expiration = expiration_of c d now\<rparr> (entries c)
   \<and> unlocked (state_after (Set c key val d now))
   \<and> trace (state_after (Set c key val d now)) = trace c @ [EvLock, EvUnlock]
   \<and> onEvicted (state_after (Set c key val d now)) = onEvicted c
   \<and> defaultExpiration (state_after (Set c key val d now)) = defaultExpiration c
   \<and> items (state_after (Set c key val d now)) = items c
   \<and> next_addr (state_after (Set c key val d now)) = next_addr c"
  by (simp add: Set_def Lock_unlocked Unlock_def Let_def returned_def state_after_def
      unlocked_def expiration_of_def entries_def put_entries_def log_event_def)

lemma get_found:
  "snd (get c key now) \<longleftrightarrow>
     (case map_of (entries c) key of
        None \<Rightarrow> False
      | Some item \<Rightarrow> \<not> (0 <s Expiration item \<and> Expiration item <s now))"
  by (simp add: get_def split: option.split)

text \<open>Where \<^verbatim>\<open>get\<close> and \<^verbatim>\<open>Expired\<close> agree: on every timestamp that is not negative.\<close>

lemma get_agrees_with_Expired:
  "0 \<le>s Expiration item \<Longrightarrow>
   (0 <s Expiration item \<and> Expiration item <s now) \<longleftrightarrow> Expired item now"
  by (auto simp: Expired_def signed.less_le)

lemma get_fields [simp]:
  "get (c\<lparr>mu := m\<rparr>) key now = get c key now"
  "get (c\<lparr>trace := t\<rparr>) key now = get c key now"
  "get (log_event e c) key now = get c key now"
  by (simp_all add: get_def entries_def log_event_def)

lemma Add_result:
  "unlocked c \<Longrightarrow>
   returned (Add c key val d now)
     = Some (if snd (get c key now) then Some (ItemAlreadyExists key) else None)
   \<and> entries (state_after (Add c key val d now))
       = (if snd (get c key now) then entries c
          else AList.update key \<lparr>Object = val, Expiration = expiration_of c d now\<rparr> (entries c))
   \<and> unlocked (state_after (Add c key val d now))
   \<and> trace (state_after (Add c key val d now)) = trace c @ [EvLock, EvUnlock]
   \<and> onEvicted (state_after (Add c key val d now)) = onEvicted c
   \<and> defaultExpiration (state_after (Add c key val d now)) = defaultExpiration c
   \<and> items (state_after (Add c key val d now)) = items c
   \<and> next_addr (state_after (Add c key val d now)) = next_addr c"
  by (simp add: Add_def Lock_unlocked Unlock_def Let_def returned_def state_after_def
      unlocked_def expiration_of_def set_nolock_def entries_def put_entries_def log_event_def)

lemma Replace_result:
  "unlocked c \<Longrightarrow>
   returned (Replace c key val d now)
     = Some (if snd (get c key now) then None else Some (ItemDoNotExists key))
   \<and> entries (state_after (Replace c key val d now))
       = (if snd (get c key now)
          then AList.update key \<lparr>Object = val, Expiration = expiration_of c d now\<rparr> (entries c)
          else entries c)
   \<and> unlocked (state_after (Replace c key val d now))
   \<and> trace (state_after (Replace c key val d now)) = trace c @ [EvLock, EvUnlock]
   \<and> onEvicted (state_after (Replace c key val d now)) = onEvicted c
   \<and> defaultExpiration (state_after (Replace c key val d now)) = defaultExpiration c
   \<and> items (state_after (Replace c key val d now)) = items c
   \<and> next_addr (state_after (Replace c key val d now)) = next_addr c"
  by (simp add: Replace_def Lock_unlocked Unlock_def Let_def returned_def state_after_def
      unlocked_def expiration_of_def set_nolock_def entries_def put_entries_def log_event_def)

lemma Get_result:
  "\<not> writer (mu c) \<Longrightarrow>
   returned (Get c key now)
     = Some (case map_of (entries c) key of
               None \<Rightarrow> (VNil, False)
             | Some item \<Rightarrow> if Expired item now then (VNil, False) else (Object item, True))
   \<and> entries (state_after (Get c key now)) = entries c
   \<and> writer (mu (state_after (Get c key now))) = writer (mu c)
   \<and> readers (mu (state_after (Get c key now))) = readers (mu c)
   \<and> trace (state_after (Get c key now)) = trace c @ [EvRLock, EvRUnlock]"
  by (simp add: Get_def RLock_def RUnlock_def returned_def state_after_def
      entries_def log_event_def split: option.split)

lemma nonneg_plus_pos_nonzero:
  fixes a d :: int64
  assumes a: "0 \<le>s a" and d: "0 <s d"
  shows "a + d \<noteq> 0"
proof
  assume z: "a + d = 0"
  have 1: "0 \<le> sint a" using a by (simp add: word_sle_eq)
  have 2: "0 < sint d" using d by (simp add: word_sless_alt)
  have 3: "sint a < 2 ^ 63" using sint_lt [of a] by simp
  have 4: "sint d < 2 ^ 63" using sint_lt [of d] by simp
  have "a + d = word_of_int (sint a + sint d)" by simp
  with z have "(2::int) ^ 64 dvd sint a + sint d"
    by (simp only: word_of_int_eq_0_iff) simp
  then obtain k where k: "sint a + sint d = 2 ^ 64 * k" by (auto simp: dvd_def)
  with 1 2 3 4 show False
    by (cases "k \<le> 0") (auto simp: not_le dest!: zless_imp_add1_zle)
qed

section \<open>The eviction callback\<close>

text \<open>
  Claim C3. With a callback registered, \<^verbatim>\<open>Delete\<close> of a key that has an entry invokes
  the callback exactly once, with the key and the value the entry held, after the mutex
  has been released: the events of the call are \<^verbatim>\<open>Lock\<close>, \<^verbatim>\<open>Unlock\<close> and then the one
  invocation. \<^verbatim>\<open>Flush\<close>, \<^verbatim>\<open>Set\<close> (so also an overwrite), \<^verbatim>\<open>Add\<close> and \<^verbatim>\<open>Replace\<close>
  (whether they fail or not) log \<^verbatim>\<open>Lock\<close> and \<^verbatim>\<open>Unlock\<close> and no invocation.
\<close>

theorem Delete_callback_once_after_unlock:
  "unlocked c \<Longrightarrow> onEvicted c = Some f \<Longrightarrow>
   (map_of (entries c) key = Some item \<longrightarrow>
      returned (Delete c key) = Some ()
      \<and> trace (state_after (Delete c key))
          = trace c @ [EvLock, EvUnlock, EvCallback f key (Object item)]
      \<and> map_of (entries (state_after (Delete c key))) key = None)
   \<and> returned (Flush c) = Some ()
   \<and> trace (state_after (Flush c)) = trace c @ [EvLock, EvUnlock]
   \<and> entries (state_after (Flush c)) = []
   \<and> returned (Set c key val d now) = Some ()
   \<and> trace (state_after (Set c key val d now)) = trace c @ [EvLock, EvUnlock]
   \<and> faulted (Add c key val d now) = None
   \<and> trace (state_after (Add c key val d now)) = trace c @ [EvLock, EvUnlock]
   \<and> faulted (Replace c key val d now) = None
   \<and> trace (state_after (Replace c key val d now)) = trace c @ [EvLock, EvUnlock]"
proof -
  assume u: "unlocked c" and f: "onEvicted c = Some f"
  have del: "map_of (entries c) key = Some item \<longrightarrow>
      returned (Delete c key) = Some ()
      \<and> trace (state_after (Delete c key))
          = trace c @ [EvLock, EvUnlock, EvCallback f key (Object item)]
      \<and> map_of (entries (state_after (Delete c key))) key = None"
    using u f
    by (simp add: Delete_def delete_def call_onEvicted_def Lock_unlocked Unlock_def
        unlocked_def entries_def put_entries_def log_event_def returned_def state_after_def
        AList.delete_conv')
  have flush: "returned (Flush c) = Some ()
      \<and> trace (state_after (Flush c)) = trace c @ [EvLock, EvUnlock]
      \<and> entries (state_after (Flush c)) = []"
    using u
    by (simp add: Flush_def make_map_def Lock_unlocked Unlock_def log_event_def
        returned_def state_after_def entries_def)
  have add: "faulted (Add c key val d now) = None"
    using Add_result [OF u, of key val d now]
    by (cases "Add c key val d now") (simp_all add: returned_def faulted_def)
  have rep: "faulted (Replace c key val d now) = None"
    using Replace_result [OF u, of key val d now]
    by (cases "Replace c key val d now") (simp_all add: returned_def faulted_def)
  show ?thesis
    using del flush add rep Set_result [OF u, of key val d now]
      Add_result [OF u, of key val d now] Replace_result [OF u, of key val d now]
    by simp
qed

theorem Delete_callback_once_after_unlock_witness:
  "unlocked ((NewFrom 0 0 0 (empty_heap(0 := [(''a'', \<lparr>Object = VInt 1, Expiration = 5\<rparr>)])) 1)
              \<lparr>onEvicted := Some 7\<rparr>)
   \<and> onEvicted ((NewFrom 0 0 0 (empty_heap(0 := [(''a'', \<lparr>Object = VInt 1, Expiration = 5\<rparr>)])) 1)
              \<lparr>onEvicted := Some 7\<rparr>) = Some 7
   \<and> map_of (entries ((NewFrom 0 0 0
              (empty_heap(0 := [(''a'', \<lparr>Object = VInt 1, Expiration = 5\<rparr>)])) 1)
              \<lparr>onEvicted := Some 7\<rparr>)) ''a'' = Some \<lparr>Object = VInt 1, Expiration = 5\<rparr>
   \<and> trace (state_after (Delete ((NewFrom 0 0 0
              (empty_heap(0 := [(''a'', \<lparr>Object = VInt 1, Expiration = 5\<rparr>)])) 1)
              \<lparr>onEvicted := Some 7\<rparr>) ''a''))
       = [EvLock, EvUnlock, EvCallback 7 ''a'' (VInt 1)]
   \<and> trace (state_after (Flush ((NewFrom 0 0 0
              (empty_heap(0 := [(''a'', \<lparr>Object = VInt 1, Expiration = 5\<rparr>)])) 1)
              \<lparr>onEvicted := Some 7\<rparr>)))
       = [EvLock, EvUnlock]"
  using Delete_callback_once_after_unlock
    [of "(NewFrom 0 0 0 (empty_heap(0 := [(''a'', \<lparr>Object = VInt 1, Expiration = 5\<rparr>)])) 1)
              \<lparr>onEvicted := Some 7\<rparr>" 7 "''a''" "\<lparr>Object = VInt 1, Expiration = 5\<rparr>"]
  by (simp add: NewFrom_def newCacheWithJanitor_def newCache_def unlocked_def entries_def
      empty_heap_def)

section \<open>Add\<close>

text \<open>
  Claim C4. \<^verbatim>\<open>Add\<close> should insert if and only if the key is absent or its entry has
  expired. The code does otherwise on an entry with a negative timestamp: the entry has
  expired (\<^verbatim>\<open>Expired\<close> holds of it, and \<^verbatim>\<open>Get\<close> reports its key as not found), yet
  \<^verbatim>\<open>Add\<close> fails on its key with the already-exists error. \<^verbatim>\<open>Add\<close> asks \<^verbatim>\<open>get\<close>, which
  takes a timestamp for a deadline only when it is positive, where \<^verbatim>\<open>Expired\<close> takes
  every timestamp but zero.
\<close>

theorem Add_fails_on_expired_entry:
  "Expired \<lparr>Object = VInt 1, Expiration = - 1\<rparr> 100
   \<and> map_of (entries (NewFrom 0 0 0
         (empty_heap(0 := [(''k'', \<lparr>Object = VInt 1, Expiration = - 1\<rparr>)])) 1)) ''k''
       = Some \<lparr>Object = VInt 1, Expiration = - 1\<rparr>
   \<and> returned (Get (NewFrom 0 0 0
         (empty_heap(0 := [(''k'', \<lparr>Object = VInt 1, Expiration = - 1\<rparr>)])) 1) ''k'' 100)
       = Some (VNil, False)
   \<and> returned (Add (NewFrom 0 0 0
         (empty_heap(0 := [(''k'', \<lparr>Object = VInt 1, Expiration = - 1\<rparr>)])) 1)
         ''k'' (VInt 2) 0 100) = Some (Some (ItemAlreadyExists ''k''))"
  by (simp add: Expired_def Add_def Get_def get_def Lock_def Unlock_def RLock_def RUnlock_def
      NewFrom_def newCacheWithJanitor_def newCache_def entries_def log_event_def returned_def
      empty_heap_def word_sless_alt)

text \<open>
  What \<^verbatim>\<open>Add\<close> does in general: it inserts exactly when the key is absent or its entry
  has a positive timestamp that lies before \<open>now\<close>, and otherwise fails and leaves the
  map as it was. After a successful \<^verbatim>\<open>Add\<close> of \<open>val\<close>, a second \<^verbatim>\<open>Add\<close> on the key at a
  time \<open>now2\<close> at which the new entry has not expired fails, and \<^verbatim>\<open>Get\<close> still returns
  \<open>val\<close>.
\<close>

lemma Add_follows_get:
  "unlocked c \<Longrightarrow>
   returned (Add c key val d now)
     = Some (if (case map_of (entries c) key of
                   None \<Rightarrow> True
                 | Some item \<Rightarrow> 0 <s Expiration item \<and> Expiration item <s now)
             then None else Some (ItemAlreadyExists key))
   \<and> entries (state_after (Add c key val d now))
       = (if (case map_of (entries c) key of
                None \<Rightarrow> True
              | Some item \<Rightarrow> 0 <s Expiration item \<and> Expiration item <s now)
          then AList.update key \<lparr>Object = val, Expiration = expiration_of c d now\<rparr> (entries c)
          else entries c)
   \<and> trace (state_after (Add c key val d now)) = trace c @ [EvLock, EvUnlock]
   \<and> (returned (Add c key val d now) = Some None \<longrightarrow>
        \<not> Expired \<lparr>Object = val, Expiration = expiration_of c d now\<rparr> now2 \<longrightarrow>
          returned (Add (state_after (Add c key val d now)) key val2 d2 now2)
            = Some (Some (ItemAlreadyExists key))
          \<and> returned (Get (state_after (Add (state_after (Add c key val d now)) key val2 d2 now2))
                key now2) = Some (val, True))"
proof -
  assume u: "unlocked c"
  let ?c1 = "state_after (Add c key val d now)"
  let ?c2 = "state_after (Add ?c1 key val2 d2 now2)"
  let ?it = "\<lparr>Object = val, Expiration = expiration_of c d now\<rparr>"
  note r1 = Add_result [OF u, of key val d now]
  have found: "snd (get c key now) \<longleftrightarrow>
      \<not> (case map_of (entries c) key of
            None \<Rightarrow> True
          | Some item \<Rightarrow> 0 <s Expiration item \<and> Expiration item <s now)"
    by (simp add: get_found split: option.split)
  have u1: "unlocked ?c1" using r1 by simp
  note r2 = Add_result [OF u1, of key val2 d2 now2]
  have seq: "returned (Add ?c1 key val2 d2 now2) = Some (Some (ItemAlreadyExists key))
      \<and> returned (Get ?c2 key now2) = Some (val, True)"
    if ok: "returned (Add c key val d now) = Some None" and live: "\<not> Expired ?it now2"
  proof -
    from ok r1 have miss: "\<not> snd (get c key now)" by (simp split: if_splits)
    with r1 have e1: "entries ?c1 = AList.update key ?it (entries c)" by simp
    then have m1: "map_of (entries ?c1) key = Some ?it" by (simp add: AList.update_conv')
    from live have "\<not> (0 <s Expiration ?it \<and> Expiration ?it <s now2)"
      by (auto simp: Expired_def split: if_splits)
    with m1 have f2: "snd (get ?c1 key now2)" by (simp add: get_found)
    with r2 have a2: "returned (Add ?c1 key val2 d2 now2) = Some (Some (ItemAlreadyExists key))"
      and e2: "entries ?c2 = entries ?c1" and u2: "unlocked ?c2" by simp_all
    from u2 have "\<not> writer (mu ?c2)" by (simp add: unlocked_def)
    from Get_result [OF this, of key now2] e2 m1 live a2 show ?thesis by simp
  qed
  show ?thesis using r1 found seq by simp
qed

lemma Add_follows_get_example:
  "unlocked (NewCache 0 0 empty_heap 0)
   \<and> returned (Add (NewCache 0 0 empty_heap 0) ''k'' (VInt 1) 50 100) = Some None
   \<and> \<not> Expired \<lparr>Object = VInt 1, Expiration = expiration_of (NewCache 0 0 empty_heap 0) 50 100\<rparr> 120
   \<and> entries (state_after (Add (NewCache 0 0 empty_heap 0) ''k'' (VInt 1) 50 100))
       = [(''k'', \<lparr>Object = VInt 1, Expiration = 150\<rparr>)]
   \<and> returned (Add (state_after (Add (NewCache 0 0 empty_heap 0) ''k'' (VInt 1) 50 100))
         ''k'' (VInt 2) 50 120) = Some (Some (ItemAlreadyExists ''k''))
   \<and> returned (Get (state_after (Add (state_after
         (Add (NewCache 0 0 empty_heap 0) ''k'' (VInt 1) 50 100)) ''k'' (VInt 2) 50 120))
         ''k'' 120) = Some (VInt 1, True)"
  using Add_follows_get
    [of "NewCache 0 0 empty_heap 0" "''k''" "VInt 1" 50 100 120 "VInt 2" 50]
  by (simp add: NewCache_def newCacheWithJanitor_def newCache_def unlocked_def entries_def
      empty_heap_def expiration_of_def Expired_def DefaultExpiration_def word_sless_alt)

text \<open>
  On a key whose entry has no negative timestamp, \<^verbatim>\<open>Add\<close> is as the claim says.
\<close>

lemma Add_as_stated_for_nonnegative_timestamp:
  "unlocked c \<Longrightarrow>
   (case map_of (entries c) key of None \<Rightarrow> True | Some item \<Rightarrow> 0 \<le>s Expiration item) \<Longrightarrow>
   returned (Add c key val d now)
     = Some (if (case map_of (entries c) key of
                   None \<Rightarrow> True
                 | Some item \<Rightarrow> Expired item now)
             then None else Some (ItemAlreadyExists key))"
proof -
  assume u: "unlocked c"
    and nn: "case map_of (entries c) key of None \<Rightarrow> True | Some item \<Rightarrow> 0 \<le>s Expiration item"
  have "snd (get c key now) \<longleftrightarrow>
      \<not> (case map_of (entries c) key of None \<Rightarrow> True | Some item \<Rightarrow> Expired item now)"
  proof (cases "map_of (entries c) key")
    case None
    then show ?thesis by (simp add: get_found)
  next
    case (Some item)
    with nn have "0 \<le>s Expiration item" by simp
    from get_agrees_with_Expired [OF this, of now] Some show ?thesis
      by (simp add: get_found)
  qed
  with Add_result [OF u, of key val d now] show ?thesis by simp
qed

text \<open>
  A negative timestamp also comes out of \<^verbatim>\<open>Set\<close> itself, when the duration is so long
  that the sum with the clock reading wraps around: here the longest duration there is,
  set at a reading in the year 2023. \<^verbatim>\<open>Get\<close> reports the key as not found at once, and
  \<^verbatim>\<open>Add\<close> reports that it exists.
\<close>

lemma Set_with_wrapping_duration:
  "entries (state_after (Set (NewCache 0 0 empty_heap 0) ''k'' (VInt 1)
       9223372036854775807 1700000000000000000))
     = [(''k'', \<lparr>Object = VInt 1, Expiration = - 7523372036854775809\<rparr>)]
   \<and> returned (Get (state_after (Set (NewCache 0 0 empty_heap 0) ''k'' (VInt 1)
       9223372036854775807 1700000000000000000)) ''k'' 1700000000000000000)
     = Some (VNil, False)
   \<and> returned (Add (state_after (Set (NewCache 0 0 empty_heap 0) ''k'' (VInt 1)
       9223372036854775807 1700000000000000000)) ''k'' (VInt 2) 0 1700000000000000000)
     = Some (Some (ItemAlreadyExists ''k''))"
  by (simp add: Set_def Get_def Add_def get_def Expired_def Lock_def Unlock_def RLock_def
      RUnlock_def NewCache_def newCacheWithJanitor_def newCache_def entries_def
      put_entries_def log_event_def returned_def state_after_def empty_heap_def
      DefaultExpiration_def word_sless_alt)

section \<open>Set and Get\<close>

text \<open>
  Claim C6. After \<^verbatim>\<open>Set\<close> with a positive duration \<open>ttl\<close> at a clock reading \<open>now\<close>
  that is not before the epoch, the computed expiry instant is \<open>now + ttl\<close>: \<^verbatim>\<open>Get\<close>
  returns the value and \<open>True\<close> at any time \<open>t1\<close> not after it, and nil and \<open>False\<close> at
  any time \<open>t2\<close> after it. After \<^verbatim>\<open>Set\<close> with \<^verbatim>\<open>NoExpiration\<close>, \<^verbatim>\<open>Get\<close> returns the value
  at every time \<open>t\<close>. For a key that is not in the map, \<^verbatim>\<open>Get\<close> returns not-found.
\<close>

theorem Set_then_Get:
  "unlocked c \<Longrightarrow>
   (0 <s ttl \<longrightarrow> 0 \<le>s now \<longrightarrow>
      (\<not> now + ttl <s t1 \<longrightarrow>
         returned (Get (state_after (Set c key val ttl now)) key t1) = Some (val, True))
      \<and> (now + ttl <s t2 \<longrightarrow>
         returned (Get (state_after (Set c key val ttl now)) key t2) = Some (VNil, False)))
   \<and> returned (Get (state_after (Set c key val NoExpiration now)) key t) = Some (val, True)
   \<and> (map_of (entries c) key = None \<longrightarrow> returned (Get c key t) = Some (VNil, False))"
proof -
  assume u: "unlocked c"
  then have w: "\<not> writer (mu c)" by (simp add: unlocked_def)
  have get_after: "returned (Get (state_after (Set c key val d now)) key t')
      = Some (if Expired \<lparr>Object = val, Expiration = expiration_of c d now\<rparr> t'
              then (VNil, False) else (val, True))" for d t'
  proof -
    note s = Set_result [OF u, of key val d now]
    then have "\<not> writer (mu (state_after (Set c key val d now)))"
      by (simp add: unlocked_def)
    from Get_result [OF this, of key t'] s show ?thesis
      by (simp add: AList.update_conv')
  qed
  have pos: "(\<not> now + ttl <s t1 \<longrightarrow>
         returned (Get (state_after (Set c key val ttl now)) key t1) = Some (val, True))
      \<and> (now + ttl <s t2 \<longrightarrow>
         returned (Get (state_after (Set c key val ttl now)) key t2) = Some (VNil, False))"
    if p: "0 <s ttl" and n: "0 \<le>s now"
  proof -
    from p have "ttl \<noteq> 0" by auto
    with p have e: "expiration_of c ttl now = now + ttl"
      by (simp add: expiration_of_def DefaultExpiration_def)
    from nonneg_plus_pos_nonzero [OF n p] e show ?thesis
      by (simp add: get_after Expired_def)
  qed
  have never: "returned (Get (state_after (Set c key val NoExpiration now)) key t)
      = Some (val, True)"
    by (simp add: get_after Expired_def expiration_of_def NoExpiration_def
        DefaultExpiration_def)
  have absent: "map_of (entries c) key = None \<longrightarrow> returned (Get c key t) = Some (VNil, False)"
    using Get_result [OF w, of key t] by simp
  show ?thesis using pos never absent by blast
qed

theorem Set_then_Get_witness:
  "unlocked (NewCache 0 0 empty_heap 0)
   \<and> (0::int64) <s 50 \<and> (0::int64) \<le>s 100 \<and> \<not> (100 + 50 :: int64) <s 150
   \<and> (100 + 50 :: int64) <s 151
   \<and> map_of (entries (NewCache 0 0 empty_heap 0)) ''k'' = None
   \<and> returned (Get (state_after (Set (NewCache 0 0 empty_heap 0) ''k'' (VStr ''v'') 50 100))
         ''k'' 150) = Some (VStr ''v'', True)
   \<and> returned (Get (state_after (Set (NewCache 0 0 empty_heap 0) ''k'' (VStr ''v'') 50 100))
         ''k'' 151) = Some (VNil, False)
   \<and> returned (Get (state_after (Set (NewCache 0 0 empty_heap 0) ''k'' (VStr ''v'')
         NoExpiration 100)) ''k'' 9000000000000000000) = Some (VStr ''v'', True)
   \<and> returned (Get (NewCache 0 0 empty_heap 0) ''k'' 100) = Some (VNil, False)"
  using Set_then_Get
    [of "NewCache 0 0 empty_heap 0" 50 100 150 "''k''" "VStr ''v''" 151 9000000000000000000]
    Set_then_Get
    [of "NewCache 0 0 empty_heap 0" 50 100 150 "''k''" "VStr ''v''" 151 100]
  by (simp add: NewCache_def newCacheWithJanitor_def newCache_def unlocked_def entries_def
      empty_heap_def word_sless_alt word_sle_eq)

section \<open>Failed calls\<close>

lemma increment_switch_None: "increment_switch fp v n = None \<longleftrightarrow> \<not> is_numeric v"
  by (cases v) simp_all

lemma decrement_switch_None: "decrement_switch fp v n = None \<longleftrightarrow> \<not> is_numeric v"
  by (cases v) simp_all

lemma Increment_result:
  "unlocked c \<Longrightarrow>
   faulted (Increment fp c key n now) = None
   \<and> returned (Increment fp c key n now)
       = Some (case map_of (entries c) key of
                 None \<Rightarrow> Some (ItemNotFound key)
               | Some item \<Rightarrow>
                   if Expired item now then Some (ItemNotFound key)
                   else if is_numeric (Object item) then None
                   else Some (ItemNotNumeric key))
   \<and> entries (state_after (Increment fp c key n now))
       = (case map_of (entries c) key of
            None \<Rightarrow> entries c
          | Some item \<Rightarrow>
              if Expired item now \<or> \<not> is_numeric (Object item) then entries c
              else AList.update key
                     (item\<lparr>Object := the (increment_switch fp (Object item) n)\<rparr>) (entries c))"
proof -
  assume u: "unlocked c"
  note defs = Increment_def Lock_unlocked [OF u] Unlock_def returned_def state_after_def
    faulted_def entries_def put_entries_def log_event_def
  show ?thesis
  proof (cases "map_of (entries c) key")
    case None
    then show ?thesis by (simp add: defs)
  next
    case (Some item)
    show ?thesis
    proof (cases "Expired item now")
      case True
      with Some show ?thesis by (simp add: defs)
    next
      case False
      show ?thesis
      proof (cases "increment_switch fp (Object item) n")
        case None
        then have "\<not> is_numeric (Object item)" by (simp add: increment_switch_None)
        with Some False None show ?thesis by (simp add: defs)
      next
        case (Some v)
        then have "is_numeric (Object item)"
          using increment_switch_None [of fp "Object item" n] by auto
        with \<open>map_of (entries c) key = Some item\<close> False Some show ?thesis
          by (simp add: defs)
      qed
    qed
  qed
qed

lemma Decrement_result:
  "unlocked c \<Longrightarrow>
   faulted (Decrement fp c key n now) = None
   \<and> returned (Decrement fp c key n now)
       = Some (case map_of (entries c) key of
                 None \<Rightarrow> Some (ItemNotFound key)
               | Some item \<Rightarrow>
                   if Expired item now then Some (ItemNotFound key)
                   else if is_numeric (Object item) then None
                   else Some (ValueNotInteger key))
   \<and> entries (state_after (Decrement fp c key n now))
       = (case map_of (entries c) key of
            None \<Rightarrow> entries c
          | Some item \<Rightarrow>
              if Expired item now \<or> \<not> is_numeric (Object item) then entries c
              else AList.update key
                     (item\<lparr>Object := the (decrement_switch fp (Object item) n)\<rparr>) (entries c))"
proof -
  assume u: "unlocked c"
  note defs = Decrement_def Lock_unlocked [OF u] Unlock_def returned_def state_after_def
    faulted_def entries_def put_entries_def log_event_def
  show ?thesis
  proof (cases "map_of (entries c) key")
    case None
    then show ?thesis by (simp add: defs)
  next
    case (Some item)
    show ?thesis
    proof (cases "Expired item now")
      case True
      with Some show ?thesis by (simp add: defs)
    next
      case False
      show ?thesis
      proof (cases "decrement_switch fp (Object item) n")
        case None
        then have "\<not> is_numeric (Object item)" by (simp add: decrement_switch_None)
        with Some False None show ?thesis by (simp add: defs)
      next
        case (Some v)
        then have "is_numeric (Object item)"
          using decrement_switch_None [of fp "Object item" n] by auto
        with \<open>map_of (entries c) key = Some item\<close> False Some show ?thesis
          by (simp add: defs)
      qed
    qed
  qed
qed

text \<open>
  Claim C7. \<^verbatim>\<open>Replace\<close> on an absent or expired key should fail with the not-found
  error and leave the map unchanged. The code does otherwise on an entry with a negative
  timestamp: the entry has expired (\<^verbatim>\<open>Expired\<close> holds of it, \<^verbatim>\<open>Get\<close> reports its key as
  not found, and \<^verbatim>\<open>Decrement\<close> fails on it with the not-found error), yet \<^verbatim>\<open>Replace\<close>
  succeeds and overwrites the entry. \<^verbatim>\<open>Replace\<close> asks \<^verbatim>\<open>get\<close>, as \<^verbatim>\<open>Add\<close> does.
\<close>

theorem Replace_succeeds_on_expired_entry:
  "Expired \<lparr>Object = VInt 1, Expiration = - 1\<rparr> 100
   \<and> map_of (entries (NewFrom 0 0 0
         (empty_heap(0 := [(''k'', \<lparr>Object = VInt 1, Expiration = - 1\<rparr>)])) 1)) ''k''
       = Some \<lparr>Object = VInt 1, Expiration = - 1\<rparr>
   \<and> returned (Get (NewFrom 0 0 0
         (empty_heap(0 := [(''k'', \<lparr>Object = VInt 1, Expiration = - 1\<rparr>)])) 1) ''k'' 100)
       = Some (VNil, False)
   \<and> returned (Decrement example_fpu (NewFrom 0 0 0
         (empty_heap(0 := [(''k'', \<lparr>Object = VInt 1, Expiration = - 1\<rparr>)])) 1) ''k'' 1 100)
       = Some (Some (ItemNotFound ''k''))
   \<and> returned (Replace (NewFrom 0 0 0
         (empty_heap(0 := [(''k'', \<lparr>Object = VInt 1, Expiration = - 1\<rparr>)])) 1)
         ''k'' (VInt 2) 0 100) = Some None
   \<and> entries (state_after (Replace (NewFrom 0 0 0
         (empty_heap(0 := [(''k'', \<lparr>Object = VInt 1, Expiration = - 1\<rparr>)])) 1)
         ''k'' (VInt 2) 0 100)) = [(''k'', \<lparr>Object = VInt 2, Expiration = 0\<rparr>)]"
  by (simp add: Expired_def Replace_def Get_def Decrement_def get_def set_nolock_def Lock_def
      Unlock_def RLock_def RUnlock_def NewFrom_def newCacheWithJanitor_def newCache_def
      entries_def put_entries_def log_event_def returned_def state_after_def empty_heap_def
      DefaultExpiration_def word_sless_alt)

text \<open>
  The rest of what the claim says holds. \<^verbatim>\<open>Replace\<close> fails with the not-found error
  exactly when the key is absent from the map or its entry has a positive timestamp that
  lies before \<open>now\<close>. \<^verbatim>\<open>Increment\<close> and \<^verbatim>\<open>Decrement\<close> on a stored value that is
  present, not expired and not numeric fail with their not-numeric errors. Whenever
  \<^verbatim>\<open>Replace\<close>, \<^verbatim>\<open>Add\<close>, \<^verbatim>\<open>Increment\<close> or \<^verbatim>\<open>Decrement\<close> returns an error, the map is
  what it was before the call. A call of one of the four that starts with the mutex free
  returns to its caller; after a failed \<^verbatim>\<open>Increment\<close> the mutex is not free.
\<close>

lemma failed_operations_leave_map:
  "unlocked c \<Longrightarrow>
   returned (Replace c key' val d now)
     = Some (if (case map_of (entries c) key' of
                   None \<Rightarrow> True
                 | Some item \<Rightarrow> 0 <s Expiration item \<and> Expiration item <s now)
             then Some (ItemDoNotExists key') else None)
   \<and> (map_of (entries c) key = Some item \<longrightarrow> \<not> Expired item now \<longrightarrow>
        \<not> is_numeric (Object item) \<longrightarrow>
          returned (Increment fp c key n now) = Some (Some (ItemNotNumeric key))
          \<and> returned (Decrement fp c key n now) = Some (Some (ValueNotInteger key)))
   \<and> (returned (Replace c key' val d now) \<noteq> Some None \<longrightarrow>
        entries (state_after (Replace c key' val d now)) = entries c)
   \<and> (returned (Add c key val d now) \<noteq> Some None \<longrightarrow>
        entries (state_after (Add c key val d now)) = entries c)
   \<and> (returned (Increment fp c key n now) \<noteq> Some None \<longrightarrow>
        entries (state_after (Increment fp c key n now)) = entries c)
   \<and> (returned (Decrement fp c key n now) \<noteq> Some None \<longrightarrow>
        entries (state_after (Decrement fp c key n now)) = entries c)
   \<and> faulted (Replace c key' val d now) = None
   \<and> faulted (Add c key val d now) = None
   \<and> faulted (Increment fp c key n now) = None
   \<and> faulted (Decrement fp c key n now) = None"
proof -
  assume u: "unlocked c"
  note rep = Replace_result [OF u, of key' val d now]
  note add = Add_result [OF u, of key val d now]
  note inc = Increment_result [OF u, of fp key n now]
  note dec = Decrement_result [OF u, of fp key n now]
  have found: "snd (get c key' now) \<longleftrightarrow>
      \<not> (case map_of (entries c) key' of
            None \<Rightarrow> True
          | Some item \<Rightarrow> 0 <s Expiration item \<and> Expiration item <s now)"
    by (simp add: get_found split: option.split)
  have 1: "returned (Replace c key' val d now)
     = Some (if (case map_of (entries c) key' of
                   None \<Rightarrow> True
                 | Some item \<Rightarrow> 0 <s Expiration item \<and> Expiration item <s now)
             then Some (ItemDoNotExists key') else None)"
    using rep found by simp
  have 2: "returned (Increment fp c key n now) = Some (Some (ItemNotNumeric key))
          \<and> returned (Decrement fp c key n now) = Some (Some (ValueNotInteger key))"
    if "map_of (entries c) key = Some item" "\<not> Expired item now" "\<not> is_numeric (Object item)"
    using that inc dec by simp
  have 3: "entries (state_after (Replace c key' val d now)) = entries c"
    if "returned (Replace c key' val d now) \<noteq> Some None"
    using that rep by (simp split: if_splits)
  have 4: "entries (state_after (Add c key val d now)) = entries c"
    if "returned (Add c key val d now) \<noteq> Some None"
    using that add by (simp split: if_splits)
  have 5: "entries (state_after (Increment fp c key n now)) = entries c"
    if "returned (Increment fp c key n now) \<noteq> Some None"
    using that inc by (auto split: option.splits if_splits)
  have 6: "entries (state_after (Decrement fp c key n now)) = entries c"
    if "returned (Decrement fp c key n now) \<noteq> Some None"
    using that dec by (auto split: option.splits if_splits)
  have 7: "faulted (Replace c key' val d now) = None"
    using rep by (cases "Replace c key' val d now") (simp_all add: returned_def faulted_def)
  have 8: "faulted (Add c key val d now) = None"
    using add by (cases "Add c key val d now") (simp_all add: returned_def faulted_def)
  show ?thesis using 1 2 3 4 5 6 7 8 inc dec by blast
qed

lemma failed_operations_leave_map_example:
  "unlocked (NewFrom 0 0 0 (empty_heap(0 := [(''s'', \<lparr>Object = VStr ''x'', Expiration = 0\<rparr>)])) 1)
   \<and> map_of (entries (NewFrom 0 0 0
         (empty_heap(0 := [(''s'', \<lparr>Object = VStr ''x'', Expiration = 0\<rparr>)])) 1)) ''s''
       = Some \<lparr>Object = VStr ''x'', Expiration = 0\<rparr>
   \<and> \<not> Expired \<lparr>Object = VStr ''x'', Expiration = 0\<rparr> 100
   \<and> \<not> is_numeric (Object \<lparr>Object = VStr ''x'', Expiration = 0\<rparr>)
   \<and> returned (Replace (NewFrom 0 0 0
         (empty_heap(0 := [(''s'', \<lparr>Object = VStr ''x'', Expiration = 0\<rparr>)])) 1)
         ''absent'' (VInt 2) 0 100) = Some (Some (ItemDoNotExists ''absent''))
   \<and> entries (state_after (Replace (NewFrom 0 0 0
         (empty_heap(0 := [(''s'', \<lparr>Object = VStr ''x'', Expiration = 0\<rparr>)])) 1)
         ''absent'' (VInt 2) 0 100)) = [(''s'', \<lparr>Object = VStr ''x'', Expiration = 0\<rparr>)]
   \<and> returned (Add (NewFrom 0 0 0
         (empty_heap(0 := [(''s'', \<lparr>Object = VStr ''x'', Expiration = 0\<rparr>)])) 1)
         ''s'' (VInt 2) 0 100) = Some (Some (ItemAlreadyExists ''s''))
   \<and> returned (Increment example_fpu (NewFrom 0 0 0
         (empty_heap(0 := [(''s'', \<lparr>Object = VStr ''x'', Expiration = 0\<rparr>)])) 1)
         ''s'' 5 100) = Some (Some (ItemNotNumeric ''s''))
   \<and> entries (state_after (Increment example_fpu (NewFrom 0 0 0
         (empty_heap(0 := [(''s'', \<lparr>Object = VStr ''x'', Expiration = 0\<rparr>)])) 1)
         ''s'' 5 100)) = [(''s'', \<lparr>Object = VStr ''x'', Expiration = 0\<rparr>)]
   \<and> returned (Decrement example_fpu (NewFrom 0 0 0
         (empty_heap(0 := [(''s'', \<lparr>Object = VStr ''x'', Expiration = 0\<rparr>)])) 1)
         ''s'' 5 100) = Some (Some (ValueNotInteger ''s''))
   \<and> entries (state_after (Decrement example_fpu (NewFrom 0 0 0
         (empty_heap(0 := [(''s'', \<lparr>Object = VStr ''x'', Expiration = 0\<rparr>)])) 1)
         ''s'' 5 100)) = [(''s'', \<lparr>Object = VStr ''x'', Expiration = 0\<rparr>)]"
  using failed_operations_leave_map
    [of "NewFrom 0 0 0 (empty_heap(0 := [(''s'', \<lparr>Object = VStr ''x'', Expiration = 0\<rparr>)])) 1"
        "''absent''" "VInt 2" 0 100 "''s''" "\<lparr>Object = VStr ''x'', Expiration = 0\<rparr>" example_fpu 5]
  by (simp add: NewFrom_def newCacheWithJanitor_def newCache_def unlocked_def entries_def
      empty_heap_def Expired_def get_def Add_def Lock_def Unlock_def log_event_def returned_def)

text \<open>
  On a key whose entry has no negative timestamp, \<^verbatim>\<open>Replace\<close> is as the claim says.
\<close>

lemma Replace_as_stated_for_nonnegative_timestamp:
  "unlocked c \<Longrightarrow>
   (case map_of (entries c) key of None \<Rightarrow> True | Some item \<Rightarrow> 0 \<le>s Expiration item) \<Longrightarrow>
   returned (Replace c key val d now)
     = Some (if (case map_of (entries c) key of
                   None \<Rightarrow> True
                 | Some item \<Rightarrow> Expired item now)
             then Some (ItemDoNotExists key) else None)
   \<and> ((case map_of (entries c) key of None \<Rightarrow> True | Some item \<Rightarrow> Expired item now) \<longrightarrow>
        entries (state_after (Replace c key val d now)) = entries c)"
proof -
  assume u: "unlocked c"
    and nn: "case map_of (entries c) key of None \<Rightarrow> True | Some item \<Rightarrow> 0 \<le>s Expiration item"
  have "snd (get c key now) \<longleftrightarrow>
      \<not> (case map_of (entries c) key of None \<Rightarrow> True | Some item \<Rightarrow> Expired item now)"
  proof (cases "map_of (entries c) key")
    case None
    then show ?thesis by (simp add: get_found)
  next
    case (Some item)
    with nn have "0 \<le>s Expiration item" by simp
    from get_agrees_with_Expired [OF this, of now] Some show ?thesis
      by (simp add: get_found)
  qed
  with Replace_result [OF u, of key val d now] show ?thesis by simp
qed

section \<open>Successful Increment and Decrement\<close>

text \<open>The type switches of the code compute what the specification's words describe.\<close>

lemma increment_switch_spec:
  "increment_switch fp v n = (if is_numeric v then Some (spec_plus_delta fp v (sint n)) else None)"
  by (cases v) (simp_all add: down_cast_same is_down)

lemma decrement_switch_spec:
  "decrement_switch fp v n = (if is_numeric v then Some (spec_minus_delta fp v (sint n)) else None)"
  by (cases v) (simp_all add: down_cast_same is_down)

lemma type_name_spec_plus_delta: "type_name (spec_plus_delta fp v k) = type_name v"
  by (cases v) simp_all

lemma type_name_spec_minus_delta: "type_name (spec_minus_delta fp v k) = type_name v"
  by (cases v) simp_all

lemma returned_Increment_unlocked: "returned (Increment fp c key n now) = Some r \<Longrightarrow> unlocked c"
  by (auto simp: Increment_def Lock_def unlocked_def returned_def split: if_splits)

lemma returned_Decrement_unlocked: "returned (Decrement fp c key n now) = Some r \<Longrightarrow> unlocked c"
  by (auto simp: Decrement_def Lock_def unlocked_def returned_def split: if_splits)

text \<open>
  Claim C5. When \<^verbatim>\<open>Increment\<close> (respectively \<^verbatim>\<open>Decrement\<close>) succeeds, the key had an
  entry, and the map afterwards is the map before with that entry's value replaced by the
  old value plus (minus) the delta in the value's own numeric kind, wrapping around for
  the integer kinds; the new value has the type of the old one, and the entry's
  expiration timestamp is the old one.
\<close>

theorem Increment_Decrement_success:
  "(returned (Increment fp c key n now) = Some None \<longrightarrow>
      (\<exists>item. map_of (entries c) key = Some item
         \<and> entries (state_after (Increment fp c key n now))
             = AList.update key
                 \<lparr>Object = spec_plus_delta fp (Object item) (sint n),
                  Expiration = Expiration item\<rparr> (entries c)
         \<and> type_name (spec_plus_delta fp (Object item) (sint n)) = type_name (Object item)))
   \<and> (returned (Decrement fp c key n now) = Some None \<longrightarrow>
      (\<exists>item. map_of (entries c) key = Some item
         \<and> entries (state_after (Decrement fp c key n now))
             = AList.update key
                 \<lparr>Object = spec_minus_delta fp (Object item) (sint n),
                  Expiration = Expiration item\<rparr> (entries c)
         \<and> type_name (spec_minus_delta fp (Object item) (sint n)) = type_name (Object item)))"
proof (intro conjI impI)
  assume ok: "returned (Increment fp c key n now) = Some None"
  note r = Increment_result [OF returned_Increment_unlocked [OF ok], of fp key n now]
  from ok r obtain item where i: "map_of (entries c) key = Some item"
    by (cases "map_of (entries c) key") auto
  from ok r i have live: "\<not> Expired item now" and num: "is_numeric (Object item)"
    by (auto split: if_splits)
  have "item\<lparr>Object := spec_plus_delta fp (Object item) (sint n)\<rparr>
      = \<lparr>Object = spec_plus_delta fp (Object item) (sint n), Expiration = Expiration item\<rparr>"
    by simp
  with r i live num show "\<exists>item. map_of (entries c) key = Some item
         \<and> entries (state_after (Increment fp c key n now))
             = AList.update key
                 \<lparr>Object = spec_plus_delta fp (Object item) (sint n),
                  Expiration = Expiration item\<rparr> (entries c)
         \<and> type_name (spec_plus_delta fp (Object item) (sint n)) = type_name (Object item)"
    by (simp add: increment_switch_spec type_name_spec_plus_delta)
next
  assume ok: "returned (Decrement fp c key n now) = Some None"
  note r = Decrement_result [OF returned_Decrement_unlocked [OF ok], of fp key n now]
  from ok r obtain item where i: "map_of (entries c) key = Some item"
    by (cases "map_of (entries c) key") auto
  from ok r i have live: "\<not> Expired item now" and num: "is_numeric (Object item)"
    by (auto split: if_splits)
  have "item\<lparr>Object := spec_minus_delta fp (Object item) (sint n)\<rparr>
      = \<lparr>Object = spec_minus_delta fp (Object item) (sint n), Expiration = Expiration item\<rparr>"
    by simp
  with r i live num show "\<exists>item. map_of (entries c) key = Some item
         \<and> entries (state_after (Decrement fp c key n now))
             = AList.update key
                 \<lparr>Object = spec_minus_delta fp (Object item) (sint n),
                  Expiration = Expiration item\<rparr> (entries c)
         \<and> type_name (spec_minus_delta fp (Object item) (sint n)) = type_name (Object item)"
    by (simp add: decrement_switch_spec type_name_spec_minus_delta)
qed

theorem Increment_Decrement_success_witness:
  "returned (Increment example_fpu (NewFrom 0 0 0
       (empty_heap(0 := [(''n'', \<lparr>Object = VInt8 120, Expiration = 500\<rparr>)])) 1) ''n'' 10 100)
     = Some None
   \<and> entries (state_after (Increment example_fpu (NewFrom 0 0 0
       (empty_heap(0 := [(''n'', \<lparr>Object = VInt8 120, Expiration = 500\<rparr>)])) 1) ''n'' 10 100))
     = [(''n'', \<lparr>Object = VInt8 (- 126), Expiration = 500\<rparr>)]
   \<and> returned (Decrement example_fpu (NewFrom 0 0 0
       (empty_heap(0 := [(''n'', \<lparr>Object = VInt8 120, Expiration = 500\<rparr>)])) 1) ''n'' 300 100)
     = Some None
   \<and> entries (state_after (Decrement example_fpu (NewFrom 0 0 0
       (empty_heap(0 := [(''n'', \<lparr>Object = VInt8 120, Expiration = 500\<rparr>)])) 1) ''n'' 300 100))
     = [(''n'', \<lparr>Object = VInt8 76, Expiration = 500\<rparr>)]"
proof -
  let ?c = "NewFrom 0 0 0 (empty_heap(0 := [(''n'', \<lparr>Object = VInt8 120, Expiration = 500\<rparr>)])) 1"
  have u: "unlocked ?c"
    by (simp add: NewFrom_def newCacheWithJanitor_def newCache_def unlocked_def)
  have e: "entries ?c = [(''n'', \<lparr>Object = VInt8 120, Expiration = 500\<rparr>)]"
    by (simp add: NewFrom_def newCacheWithJanitor_def newCache_def entries_def)
  have live: "\<not> Expired \<lparr>Object = VInt8 120, Expiration = 500\<rparr> 100"
    by (simp add: Expired_def)
  have i: "returned (Increment example_fpu ?c ''n'' 10 100) = Some None"
    using Increment_result [OF u, of example_fpu "''n''" 10 100] e live by simp
  have d: "returned (Decrement example_fpu ?c ''n'' 300 100) = Some None"
    using Decrement_result [OF u, of example_fpu "''n''" 300 100] e live by simp
  show ?thesis
    using Increment_Decrement_success [of example_fpu ?c "''n''" 10 100]
      Increment_Decrement_success [of example_fpu ?c "''n''" 300 100] i d e
    by simp
qed

section \<open>Items\<close>

lemma update_fresh_key:
  "k \<notin> fst ` set al \<Longrightarrow> AList.update k v al = al @ [(k, v)]"
  by (induction al) auto

lemma Items_range_fields:
  "mu (Items_range xs now m c) = mu c
   \<and> trace (Items_range xs now m c) = trace c
   \<and> items (Items_range xs now m c) = items c
   \<and> next_addr (Items_range xs now m c) = next_addr c
   \<and> onEvicted (Items_range xs now m c) = onEvicted c"
  by (induction xs now m c rule: Items_range.induct) simp_all

lemma Items_range_other:
  "a \<noteq> m \<Longrightarrow> heap (Items_range xs now m c) a = heap c a"
  by (induction xs now m c rule: Items_range.induct) simp_all

lemma Items_range_copy:
  "distinct (map fst xs) \<Longrightarrow> fst ` set xs \<inter> fst ` set (heap c m) = {} \<Longrightarrow>
   heap (Items_range xs now m c) m
     = heap c m @ filter (\<lambda>(k, item). \<not> Expired item now) xs"
proof (induction xs now m c rule: Items_range.induct)
  case (1 now m c)
  then show ?case by simp
next
  case (2 k item rest now m c)
  from "2.prems" have fresh: "k \<notin> fst ` set (heap c m)" and d: "distinct (map fst rest)"
    and k: "k \<notin> fst ` set rest" and disj: "fst ` set rest \<inter> fst ` set (heap c m) = {}"
    by auto
  show ?case
  proof (cases "Expired item now")
    case True
    with "2.IH"(2) d disj show ?thesis by simp
  next
    case False
    let ?c = "c\<lparr>heap := (heap c)(m := AList.update k item (heap c m))\<rparr>"
    have h: "heap ?c m = heap c m @ [(k, item)]"
      using fresh by (simp add: update_fresh_key)
    with k disj have "fst ` set rest \<inter> fst ` set (heap ?c m) = {}"
      by auto
    from "2.IH"(1) [OF _ d this] False h show ?thesis by simp
  qed
qed

text \<open>
  Claim C8. \<^verbatim>\<open>Items\<close> returns the address of a new map, one that was not in use before
  the call, which holds exactly the entries of the cache's map that have not expired at
  the time of the call; no expired entry is in it, whether or not a sweep has run. The
  maps that existed before, the cache's own among them, are unchanged by the call, and
  writing anything (\<open>m'\<close>) to the returned map afterwards leaves the cache's map as it was.
\<close>

theorem Items_is_a_copy_of_the_live_entries:
  "\<not> writer (mu c) \<Longrightarrow> items c < next_addr c \<Longrightarrow> distinct (map fst (entries c)) \<Longrightarrow>
   returned (Items c now) = Some (next_addr c)
   \<and> heap (state_after (Items c now)) (next_addr c)
       = filter (\<lambda>(k, item). \<not> Expired item now) (entries c)
   \<and> (\<forall>a. a < next_addr c \<longrightarrow> heap (state_after (Items c now)) a = heap c a)
   \<and> items (state_after (Items c now)) = items c
   \<and> entries (state_after (Items c now)) = entries c
   \<and> entries ((state_after (Items c now))
        \<lparr>heap := (heap (state_after (Items c now)))(next_addr c := m')\<rparr>) = entries c"
proof -
  assume w: "\<not> writer (mu c)" and alloc: "items c < next_addr c"
    and d: "distinct (map fst (entries c))"
  let ?m = "next_addr c"
  let ?c1 = "log_event EvRLock (c\<lparr>mu := (mu c)\<lparr>readers := Suc (readers (mu c))\<rparr>\<rparr>)"
  let ?c2 = "?c1\<lparr>heap := (heap ?c1)(?m := []), next_addr := Suc ?m\<rparr>"
  let ?c3 = "Items_range (entries ?c2) now ?m ?c2"
  have e2: "entries ?c2 = entries c"
    using alloc by (simp add: entries_def log_event_def)
  have h2: "heap ?c2 ?m = []" by (simp add: log_event_def)
  have copy: "heap ?c3 ?m = filter (\<lambda>(k, item). \<not> Expired item now) (entries c)"
    using Items_range_copy [of "entries ?c2" ?c2 ?m now] d e2 h2 by simp
  have other: "heap ?c3 a = heap c a" if "a < ?m" for a
    using Items_range_other [of a ?m "entries ?c2" now ?c2] that
    by (simp add: log_event_def)
  note f3 = Items_range_fields [of "entries ?c2" now ?m ?c2]
  have r3: "0 < readers (mu ?c3)" using f3 by (simp add: log_event_def)
  have run: "Items c now
      = Inr (?m, log_event EvRUnlock (?c3\<lparr>mu := (mu ?c3)\<lparr>readers := readers (mu ?c3) - 1\<rparr>\<rparr>))"
    using w r3 by (simp add: Items_def RLock_def make_map_def RUnlock_def)
  have i3: "items ?c3 = items c" using f3 by (simp add: log_event_def)
  show ?thesis
    using copy other alloc i3
    by (simp add: run returned_def state_after_def entries_def log_event_def)
qed

theorem Items_is_a_copy_of_the_live_entries_witness:
  "\<not> writer (mu (NewFrom 0 0 0
       (empty_heap(0 := [(''a'', \<lparr>Object = VInt 1, Expiration = 5\<rparr>),
                        (''b'', \<lparr>Object = VStr ''x'', Expiration = 0\<rparr>)])) 1))
   \<and> items (NewFrom 0 0 0
       (empty_heap(0 := [(''a'', \<lparr>Object = VInt 1, Expiration = 5\<rparr>),
                        (''b'', \<lparr>Object = VStr ''x'', Expiration = 0\<rparr>)])) 1)
       < next_addr (NewFrom 0 0 0
       (empty_heap(0 := [(''a'', \<lparr>Object = VInt 1, Expiration = 5\<rparr>),
                        (''b'', \<lparr>Object = VStr ''x'', Expiration = 0\<rparr>)])) 1)
   \<and> distinct (map fst (entries (NewFrom 0 0 0
       (empty_heap(0 := [(''a'', \<lparr>Object = VInt 1, Expiration = 5\<rparr>),
                        (''b'', \<lparr>Object = VStr ''x'', Expiration = 0\<rparr>)])) 1)))
   \<and> returned (Items (NewFrom 0 0 0
       (empty_heap(0 := [(''a'', \<lparr>Object = VInt 1, Expiration = 5\<rparr>),
                        (''b'', \<lparr>Object = VStr ''x'', Expiration = 0\<rparr>)])) 1) 10) = Some 1
   \<and> heap (state_after (Items (NewFrom 0 0 0
       (empty_heap(0 := [(''a'', \<lparr>Object = VInt 1, Expiration = 5\<rparr>),
                        (''b'', \<lparr>Object = VStr ''x'', Expiration = 0\<rparr>)])) 1) 10)) 1
       = [(''b'', \<lparr>Object = VStr ''x'', Expiration = 0\<rparr>)]
   \<and> heap (state_after (Items (NewFrom 0 0 0
       (empty_heap(0 := [(''a'', \<lparr>Object = VInt 1, Expiration = 5\<rparr>),
                        (''b'', \<lparr>Object = VStr ''x'', Expiration = 0\<rparr>)])) 1) 10)) 0
       = [(''a'', \<lparr>Object = VInt 1, Expiration = 5\<rparr>),
          (''b'', \<lparr>Object = VStr ''x'', Expiration = 0\<rparr>)]"
  using Items_is_a_copy_of_the_live_entries
    [of "NewFrom 0 0 0
       (empty_heap(0 := [(''a'', \<lparr>Object = VInt 1, Expiration = 5\<rparr>),
                        (''b'', \<lparr>Object = VStr ''x'', Expiration = 0\<rparr>)])) 1" 10 "[]"]
  by (simp add: NewFrom_def newCacheWithJanitor_def newCache_def entries_def Expired_def)

section \<open>ItemCount\<close>

lemma card_dom_map_of_distinct:
  "distinct (map fst xs) \<Longrightarrow> card (dom (map_of xs)) = length xs"
proof -
  assume d: "distinct (map fst xs)"
  have "dom (map_of xs) = set (map fst xs)" by (simp add: dom_map_of_conv_image_fst)
  with distinct_card [OF d] show ?thesis by simp
qed

lemma length_expired_plus_live:
  "length xs = length (filter (\<lambda>(k, item). Expired item now) xs)
     + length (filter (\<lambda>(k, item). \<not> Expired item now) xs)"
  by (induction xs) auto

text \<open>
  Claim C9. \<^verbatim>\<open>ItemCount\<close> returns the number of entries in the map: the number of its
  keys, which at any time \<open>now\<close> is the number of expired entries plus the number of
  entries that have not expired. It reads no clock and filters nothing.
\<close>

theorem ItemCount_counts_expired_entries:
  "\<not> writer (mu c) \<Longrightarrow> distinct (map fst (entries c)) \<Longrightarrow>
   returned (ItemCount c) = Some (int (card (dom (map_of (entries c)))))
   \<and> returned (ItemCount c)
       = Some (int (length (filter (\<lambda>(k, item). Expired item now) (entries c)))
               + int (length (filter (\<lambda>(k, item). \<not> Expired item now) (entries c))))
   \<and> entries (state_after (ItemCount c)) = entries c"
proof -
  assume w: "\<not> writer (mu c)" and d: "distinct (map fst (entries c))"
  have r: "returned (ItemCount c) = Some (int (length (entries c)))"
    and e: "entries (state_after (ItemCount c)) = entries c"
    using w
    by (simp_all add: ItemCount_def RLock_def RUnlock_def returned_def state_after_def
        entries_def log_event_def)
  have "card (dom (map_of (entries c))) = length (entries c)"
    using d by (rule card_dom_map_of_distinct)
  moreover note length_expired_plus_live [of "entries c" now]
  ultimately show ?thesis using r e by simp
qed

theorem ItemCount_counts_expired_entries_witness:
  "\<not> writer (mu (NewFrom 0 0 0
       (empty_heap(0 := [(''a'', \<lparr>Object = VInt 1, Expiration = 5\<rparr>),
                        (''b'', \<lparr>Object = VStr ''x'', Expiration = 0\<rparr>)])) 1))
   \<and> distinct (map fst (entries (NewFrom 0 0 0
       (empty_heap(0 := [(''a'', \<lparr>Object = VInt 1, Expiration = 5\<rparr>),
                        (''b'', \<lparr>Object = VStr ''x'', Expiration = 0\<rparr>)])) 1)))
   \<and> Expired \<lparr>Object = VInt 1, Expiration = 5\<rparr> 10
   \<and> returned (ItemCount (NewFrom 0 0 0
       (empty_heap(0 := [(''a'', \<lparr>Object = VInt 1, Expiration = 5\<rparr>),
                        (''b'', \<lparr>Object = VStr ''x'', Expiration = 0\<rparr>)])) 1)) = Some 2"
  using ItemCount_counts_expired_entries
    [of "NewFrom 0 0 0
       (empty_heap(0 := [(''a'', \<lparr>Object = VInt 1, Expiration = 5\<rparr>),
                        (''b'', \<lparr>Object = VStr ''x'', Expiration = 0\<rparr>)])) 1" 10]
  by (simp add: NewFrom_def newCacheWithJanitor_def newCache_def entries_def Expired_def)

section \<open>A default duration of zero\<close>

text \<open>
  Claim C10. A cache constructed with a default duration of zero has the default
  \<^verbatim>\<open>NoExpiration\<close>, that is \<open>- 1\<close>. On such a cache, \<^verbatim>\<open>Set\<close> with \<^verbatim>\<open>DefaultExpiration\<close>,
  and \<^verbatim>\<open>SetDefault\<close>, store the entry with the timestamp 0, and \<^verbatim>\<open>Get\<close> returns its value
  at every time \<open>t\<close>.
\<close>

theorem zero_default_never_expires:
  "defaultExpiration (newCache 0 m hp nx) = NoExpiration
   \<and> defaultExpiration (NewCache 0 interval hp nx) = NoExpiration
   \<and> defaultExpiration (NewFrom 0 interval m hp nx) = NoExpiration
   \<and> map_of (entries (state_after
        (Set (newCacheWithJanitor 0 interval m hp nx) key val DefaultExpiration now))) key
       = Some \<lparr>Object = val, Expiration = 0\<rparr>
   \<and> returned (Get (state_after
        (Set (newCacheWithJanitor 0 interval m hp nx) key val DefaultExpiration now)) key t)
       = Some (val, True)
   \<and> returned (Get (state_after
        (SetDefault (newCacheWithJanitor 0 interval m hp nx) key val now)) key t)
       = Some (val, True)"
proof -
  let ?c = "newCacheWithJanitor 0 interval m hp nx"
  have u: "unlocked ?c"
    by (simp add: newCacheWithJanitor_def newCache_def unlocked_def Let_def)
  have d: "defaultExpiration ?c = - 1"
    by (simp add: newCacheWithJanitor_def newCache_def Let_def)
  then have e: "expiration_of ?c DefaultExpiration now = 0"
    by (simp add: expiration_of_def)
  note s = Set_result [OF u, of key val DefaultExpiration now]
  from s e have m: "map_of (entries (state_after (Set ?c key val DefaultExpiration now))) key
      = Some \<lparr>Object = val, Expiration = 0\<rparr>"
    by (simp add: AList.update_conv')
  from s have "\<not> writer (mu (state_after (Set ?c key val DefaultExpiration now)))"
    by (simp add: unlocked_def)
  from Get_result [OF this, of key t] m
  have g: "returned (Get (state_after (Set ?c key val DefaultExpiration now)) key t)
      = Some (val, True)"
    by (simp add: Expired_def)
  show ?thesis
    using m g
    by (simp add: SetDefault_def newCache_def NewCache_def NewFrom_def newCacheWithJanitor_def
        NoExpiration_def Let_def)
qed

end
